theory Spec2Isabelle
  imports Complex_Main
begin

section \<open>JavaScript strings and numbers\<close>

text \<open>
  A JavaScript string is a sequence of code units; \<open>length\<close>, \<open>substring\<close>,
  \<open>lastIndexOf\<close> and \<open>trim\<close> all count code units. The model uses
  \<^typ>\<open>string\<close>, one \<^typ>\<open>char\<close> for each code unit below 256 (the Latin-1
  range). Indices are \<^typ>\<open>int\<close>: the chunker computes with them before it passes
  them to \<open>substring\<close>, and they may leave the range of the string.
\<close>

definition is_space :: "char \<Rightarrow> bool" where
  \<comment> \<open>the class \<open>\s\<close> of a regular expression, which is also what \<open>trim\<close> strips:
      tab, line feed, vertical tab, form feed, carriage return, space, no-break space\<close>
  "is_space c \<longleftrightarrow>
     c \<in> {CHR 0x09, CHR 0x0A, CHR 0x0B, CHR 0x0C, CHR 0x0D, CHR 0x20, CHR 0xA0}"

definition trim :: "string \<Rightarrow> string" where
  "trim s = rev (dropWhile is_space (rev (dropWhile is_space s)))"

definition clamp_index :: "string \<Rightarrow> int \<Rightarrow> nat" where
  "clamp_index s i = nat (min (max i 0) (int (length s)))"

definition substring :: "string \<Rightarrow> int \<Rightarrow> int \<Rightarrow> string" where
  \<comment> \<open>\<open>s.substring(a, b)\<close>: both indices are clamped to \<open>[0, length]\<close> and swapped
      when the first is the larger\<close>
  "substring s a b =
     (let x = clamp_index s a; y = clamp_index s b
      in take (max x y - min x y) (drop (min x y) s))"

fun lastIndexOf_from :: "string \<Rightarrow> string \<Rightarrow> nat \<Rightarrow> int" where
  "lastIndexOf_from s p 0 = (if take (length p) s = p then 0 else - 1)"
| "lastIndexOf_from s p (Suc k) =
     (if take (length p) (drop (Suc k) s) = p then int (Suc k)
      else lastIndexOf_from s p k)"

definition lastIndexOf :: "string \<Rightarrow> string \<Rightarrow> int" where
  \<comment> \<open>\<open>s.lastIndexOf(p)\<close>: the largest index at which \<open>p\<close> occurs in \<open>s\<close>, or \<open>-1\<close>\<close>
  "lastIndexOf s p =
     (if length p \<le> length s then lastIndexOf_from s p (length s - length p) else - 1)"

fun split_on :: "char \<Rightarrow> string \<Rightarrow> string list" where
  \<comment> \<open>\<open>s.split(c)\<close> for a one-character separator; the empty string gives \<open>['']\<close>\<close>
  "split_on c [] = [[]]"
| "split_on c (x # xs) =
     (if x = c then [] # split_on c xs
      else (case split_on c xs of
              [] \<Rightarrow> [[x]]
            | l # ls \<Rightarrow> (x # l) # ls))"

fun decimal :: "nat \<Rightarrow> string" where
  \<comment> \<open>the decimal digits of a number, as template literals print it\<close>
  "decimal n =
     (if n < 10 then [char_of (48 + n)]
      else decimal (n div 10) @ [char_of (48 + n mod 10)])"

declare decimal.simps [simp del]

subsection \<open>Products with a fractional constant\<close>

text \<open>
  \<open>chunkSize * 0.6\<close> is a product of IEEE doubles, rounded to 53 significant bits
  (nearest, ties to even). The constants are the doubles nearest to 0.5, 0.6 and 0.7,
  given as numerators over \<open>2 ^ 53\<close>. The chunk size is an integer (\<open>parseInt\<close> in the
  upload form, a JSON number in the blob route) below \<open>2 ^ 53\<close> in absolute value,
  which a double holds exactly. The comparison of an index with such a product is made
  on integers, both sides scaled by \<open>2 ^ 53\<close>.
\<close>

fun bit_length :: "int \<Rightarrow> nat" where
  \<comment> \<open>the number of binary digits of a positive integer\<close>
  "bit_length n = (if n \<le> 0 then 0 else Suc (bit_length (n div 2)))"

declare bit_length.simps [simp del]

definition round53 :: "int \<Rightarrow> int" where
  \<comment> \<open>a non-negative integer rounded to 53 significant bits, ties to even\<close>
  "round53 n =
     (let l = bit_length n
      in if l \<le> 53 then n
         else (let sh = l - 53; q = n div 2 ^ sh; r = n mod 2 ^ sh; h = 2 ^ (sh - 1)
               in (if h < r \<or> (r = h \<and> odd q) then q + 1 else q) * 2 ^ sh))"

definition half_53 :: int where "half_53 = 4503599627370496"
definition six_tenths_53 :: int where "six_tenths_53 = 5404319552844595"
definition seven_tenths_53 :: int where "seven_tenths_53 = 6305039478318694"

definition exceeds :: "int \<Rightarrow> int \<Rightarrow> int \<Rightarrow> bool" where
  \<comment> \<open>\<open>exceeds k chunkSize c\<close> is the test \<open>k > chunkSize * (c / 2 ^ 53)\<close>\<close>
  "exceeds k chunkSize c \<longleftrightarrow>
     sgn chunkSize * round53 (\<bar>chunkSize\<bar> * c) < k * 2 ^ 53"

section \<open>The chunking service\<close>

text \<open>
  The chunk size, the overlap and every index are integers. The upload form reads the
  chunk size and the overlap with \<open>parseInt\<close>; the blob route passes on the numbers of
  the request body as they are, with no check. What follows is about integer values
  only: with a fractional overlap or chunk size the start index advances by fractions,
  and nothing below speaks of that case.
\<close>

record chunk =
  chunk_id :: string
  chunk_text :: string
  startIndex :: int
  endIndex :: int
  page :: "int option"

definition is_sentence_ender :: "char \<Rightarrow> bool" where
  "is_sentence_ender c \<longleftrightarrow> c \<in> {CHR ''.'', CHR ''!'', CHR ''?''}"

function sentence_scan :: "nat \<Rightarrow> string \<Rightarrow> int \<Rightarrow> int" where
  \<comment> \<open>the loop \<open>while ((match = /[.!?]\s+/g.exec(chunkText)) !== null)\<close>: the first
      argument is the index of the head of the text still to search, the last is
      \<open>lastSentenceEnd\<close>\<close>
  "sentence_scan pos [] lastEnd = lastEnd"
| "sentence_scan pos [c] lastEnd = lastEnd"
| "sentence_scan pos (c # d # ds) lastEnd =
     (if is_sentence_ender c \<and> is_space d
      then (let n = length (takeWhile is_space (d # ds))
            in sentence_scan (pos + 1 + n) (dropWhile is_space (d # ds))
                 (int (pos + 1 + n)))
      else sentence_scan (pos + 1) (d # ds) lastEnd)"
  by pat_completeness auto
termination
proof (relation "measure (\<lambda>(pos, s, lastEnd). length s)")
  fix c d :: char and ds :: string
  have "length (dropWhile is_space ds) \<le> length ds"
    by (rule length_dropWhile_le)
  then show "is_sentence_ender c \<and> is_space d \<Longrightarrow>
    ((pos + 1 + n, dropWhile is_space (d # ds), int (pos + 1 + n)), pos, c # d # ds, lastEnd)
      \<in> measure (\<lambda>(pos, s, lastEnd). length s)" for pos n lastEnd
    by simp
qed simp_all

definition actualEndIndex :: "string \<Rightarrow> int \<Rightarrow> int \<Rightarrow> int" where
  \<comment> \<open>lines 52 to 87 of \<open>chunkSimple\<close>: the end of the chunk that starts at \<open>startIndex\<close>\<close>
  "actualEndIndex text chunkSize start =
     (let endIdx = min (start + chunkSize) (int (length text));
          chunkText = substring text start endIdx
      in if endIdx < int (length text) then
           (let lastParagraph = lastIndexOf chunkText [CHR 0x0A, CHR 0x0A]
            in if exceeds lastParagraph chunkSize six_tenths_53
               then start + lastParagraph + 2
               else (let lastSentenceEnd = sentence_scan 0 chunkText (- 1)
                     in if exceeds lastSentenceEnd chunkSize half_53
                        then start + lastSentenceEnd
                        else (let lastNewline = lastIndexOf chunkText [CHR 0x0A]
                              in if exceeds lastNewline chunkSize half_53
                                 then start + lastNewline + 1
                                 else (let lastSpace = lastIndexOf chunkText [CHR 0x20]
                                       in if exceeds lastSpace chunkSize seven_tenths_53
                                          then start + lastSpace + 1
                                          else endIdx))))
         else endIdx)"

fun chunkSimple_loop ::
  "nat \<Rightarrow> string \<Rightarrow> int \<Rightarrow> int \<Rightarrow> int option \<Rightarrow> int \<Rightarrow> nat \<Rightarrow> chunk list \<Rightarrow> chunk list option"
where
  \<comment> \<open>the \<open>while\<close> loop of \<open>chunkSimple\<close>; the first argument bounds the number of
      iterations, and \<open>None\<close> says that the bound was reached with the loop still running\<close>
  "chunkSimple_loop 0 text chunkSize overlap pageNumber start chunkId chunks =
     (if start < int (length text) then None else Some chunks)"
| "chunkSimple_loop (Suc n) text chunkSize overlap pageNumber start chunkId chunks =
     (if start < int (length text) then
        (let actualEnd = actualEndIndex text chunkSize start;
             chunkTextFinal = trim (substring text start actualEnd)
         in if 50 < length chunkTextFinal then
              (let c = \<lparr>chunk_id = ''chunk-'' @ decimal chunkId,
                        chunk_text = chunkTextFinal,
                        startIndex = start,
                        endIndex = actualEnd,
                        page = pageNumber\<rparr>;
                   next = actualEnd - overlap
               in chunkSimple_loop n text chunkSize overlap pageNumber
                    (if next \<le> startIndex c then endIndex c else next)
                    (Suc chunkId) (chunks @ [c]))
            else chunkSimple_loop n text chunkSize overlap pageNumber actualEnd chunkId chunks)
      else Some chunks)"

definition chunkSimple ::
  "nat \<Rightarrow> string \<Rightarrow> int \<Rightarrow> int \<Rightarrow> int option \<Rightarrow> chunk list option" where
  "chunkSimple fuel text chunkSize overlap pageNumber =
     chunkSimple_loop fuel text chunkSize overlap pageNumber 0 0 []"

definition is_upper_AZ :: "char \<Rightarrow> bool" where
  "is_upper_AZ c \<longleftrightarrow> 65 \<le> (of_char c :: nat) \<and> (of_char c :: nat) \<le> 90"

definition all_caps_line :: "string \<Rightarrow> bool" where
  \<comment> \<open>\<open>/^[A-Z\s#]+$/.test(line)\<close>\<close>
  "all_caps_line line \<longleftrightarrow>
     line \<noteq> [] \<and> list_all (\<lambda>c. is_upper_AZ c \<or> is_space c \<or> c = CHR ''#'') line"

definition markdown_heading_line :: "string \<Rightarrow> bool" where
  \<comment> \<open>\<open>/^#{1,6}\s/.test(line)\<close>: one to six \<open>#\<close>, then a whitespace character\<close>
  "markdown_heading_line line \<longleftrightarrow>
     (let k = length (takeWhile (\<lambda>c. c = CHR ''#'') line)
      in 1 \<le> k \<and> k \<le> 6 \<and> k < length line \<and> is_space (line ! k))"

definition isHeading :: "nat \<Rightarrow> nat \<Rightarrow> string \<Rightarrow> bool" where
  \<comment> \<open>\<open>isHeading\<close> for the trimmed line \<open>line\<close> at index \<open>i\<close> of \<open>n\<close> lines\<close>
  "isHeading n i line \<longleftrightarrow>
     (length line < 100 \<and> all_caps_line line)
     \<or> markdown_heading_line line
     \<or> (length line < 80 \<and> 0 < length line \<and> int i < int n - 1)"

fun heading_scan :: "nat \<Rightarrow> nat \<Rightarrow> int \<Rightarrow> string list \<Rightarrow> int list" where
  \<comment> \<open>the \<open>for\<close> loop over the lines: \<open>n\<close> is \<open>lines.length\<close>, \<open>i\<close> the index of the
      head of the remaining lines and \<open>currentIndex\<close> its offset in the text\<close>
  "heading_scan n i currentIndex [] = []"
| "heading_scan n i currentIndex (l # ls) =
     (if isHeading n i (trim l) then [currentIndex] else [])
     @ heading_scan n (Suc i) (currentIndex + int (length l) + 1) ls"

definition headingIndices :: "string \<Rightarrow> int list" where
  "headingIndices text =
     (let lines = split_on (CHR 0x0A) text in heading_scan (length lines) 0 0 lines)"

definition renumber :: "nat \<Rightarrow> int \<Rightarrow> chunk list \<Rightarrow> chunk list" where
  \<comment> \<open>the \<open>forEach\<close> over the chunks of a section: fresh ids, offsets moved into the
      coordinates of the whole text\<close>
  "renumber chunkId headingStart sectionChunks =
     map (\<lambda>(k, c). c\<lparr>chunk_id := ''chunk-'' @ decimal (chunkId + k),
                       startIndex := startIndex c + headingStart,
                       endIndex := endIndex c + headingStart\<rparr>)
       (enumerate 0 sectionChunks)"

fun sections_loop ::
  "nat \<Rightarrow> string \<Rightarrow> int \<Rightarrow> int \<Rightarrow> int option \<Rightarrow> int list \<Rightarrow> nat \<Rightarrow> chunk list \<Rightarrow> chunk list option"
where
  \<comment> \<open>the \<open>for\<close> loop over \<open>headingIndices\<close>, from the index of the head of the list\<close>
  "sections_loop fuel text chunkSize overlap pageNumber [] chunkId chunks = Some chunks"
| "sections_loop fuel text chunkSize overlap pageNumber (headingStart # rest) chunkId chunks =
     (let headingEnd = (case rest of [] \<Rightarrow> int (length text) | h # _ \<Rightarrow> h);
          sectionText = substring text headingStart headingEnd
      in if chunkSize < int (length sectionText) then
           (case chunkSimple fuel sectionText chunkSize overlap pageNumber of
              None \<Rightarrow> None
            | Some sectionChunks \<Rightarrow>
                sections_loop fuel text chunkSize overlap pageNumber rest
                  (chunkId + length sectionChunks)
                  (chunks @ renumber chunkId headingStart sectionChunks))
         else sections_loop fuel text chunkSize overlap pageNumber rest (Suc chunkId)
                (chunks @ [\<lparr>chunk_id = ''chunk-'' @ decimal chunkId,
                             chunk_text = trim sectionText,
                             startIndex = headingStart,
                             endIndex = headingEnd,
                             page = pageNumber\<rparr>]))"

definition chunkWithHeadings ::
  "nat \<Rightarrow> string \<Rightarrow> int \<Rightarrow> int \<Rightarrow> int option \<Rightarrow> chunk list option" where
  "chunkWithHeadings fuel text chunkSize overlap pageNumber =
     (if headingIndices text = [] then chunkSimple fuel text chunkSize overlap pageNumber
      else sections_loop fuel text chunkSize overlap pageNumber (headingIndices text) 0 [])"

record ChunkingConfig =
  cfgChunkSize :: int
  cfgOverlap :: int
  cfgUseHeadings :: bool

definition chunkText :: "nat \<Rightarrow> string \<Rightarrow> ChunkingConfig \<Rightarrow> int option \<Rightarrow> chunk list option" where
  \<comment> \<open>the first argument bounds the iterations of each run of \<open>chunkSimple\<close>\<close>
  "chunkText fuel text config pageNumber =
     (if cfgUseHeadings config
      then chunkWithHeadings fuel text (cfgChunkSize config) (cfgOverlap config) pageNumber
      else chunkSimple fuel text (cfgChunkSize config) (cfgOverlap config) pageNumber)"


section \<open>External collaborators\<close>

text \<open>
  The parsing libraries, the embedding provider, the vector store, the blob storage and
  the temporary file are outside the program. Each call to one of them is recorded in
  a log, and what a call returns is a function of the log so far and of its arguments:
  a collaborator may answer the same request differently at different moments. An error
  thrown by a call is a value \<open>Inl (Error message)\<close>.
\<close>

datatype jserror = Error (message: string)

type_synonym buffer = string

type_synonym vector = "real list"

datatype call =
    FetchBlob string
  | StoreQueryByHash string "string option" string
  | DescribeIndexStats string
  | StoreQueryByFilename string "string option" "string option"
  | WriteTempFile
  | UnlinkTempFile
  | Uuid
  | PdfParse
  | ExtractRawText
  | CsvParse
  | EmbeddingsCreate "string list" int
  | StoreUpsert string "string option" nat

record vector_metadata =
  m_source :: string
  m_topic :: string
  m_subtopic :: "string option"
  m_version :: "string option"
  m_chunk_id :: string
  m_page :: "int option"
  m_filename :: string
  m_file_hash :: string
  m_uploaded_at :: string
  m_text :: string
  m_chunk_text :: string
  m_preview :: string

record vector_record =
  vr_id :: string
  vr_values :: "vector option"
  vr_metadata :: vector_metadata

record pdf_data =
  pdf_text :: string
  numpages :: int

record match_metadata =
  md_filename :: "string option"
  md_uploaded_at :: "string option"

record env =
  PINECONE_API_KEY :: string
  OPENAI_API_KEY :: string
  fetch :: "call list \<Rightarrow> string \<Rightarrow> jserror + bool \<times> string \<times> (jserror + buffer)"
  sha256_hex :: "buffer \<Rightarrow> string"
  now_iso :: "call list \<Rightarrow> string"
  uuidv4 :: "call list \<Rightarrow> string"
  query_by_hash ::
    "call list \<Rightarrow> string \<Rightarrow> string option \<Rightarrow> string \<Rightarrow> jserror + match_metadata option list option"
  describeIndexStats :: "call list \<Rightarrow> string \<Rightarrow> jserror + unit"
  query_by_filename ::
    "call list \<Rightarrow> string \<Rightarrow> string option \<Rightarrow> string option
       \<Rightarrow> jserror + match_metadata option list option"
  writeFile :: "call list \<Rightarrow> jserror + unit"
  pdfParse :: "call list \<Rightarrow> buffer \<Rightarrow> jserror + pdf_data"
  extractRawText :: "call list \<Rightarrow> buffer \<Rightarrow> jserror + string"
  csv_parse :: "call list \<Rightarrow> string \<Rightarrow> jserror + (string \<times> string) list list"
  embeddings_create :: "call list \<Rightarrow> string list \<Rightarrow> int \<Rightarrow> jserror + vector list"
  store_upsert ::
    "call list \<Rightarrow> string \<Rightarrow> string option \<Rightarrow> vector_record list \<Rightarrow> jserror + unit"

section \<open>The parser service\<close>

fun join :: "string \<Rightarrow> string list \<Rightarrow> string" where
  \<comment> \<open>\<open>parts.join(sep)\<close>\<close>
  "join sep [] = []"
| "join sep [x] = x"
| "join sep (x # y # ys) = x @ sep @ join sep (y # ys)"

function split_spaces2 :: "string \<Rightarrow> string list" where
  \<comment> \<open>\<open>line.split(/\s{2,}/)\<close>: the separators are the maximal runs of two or more
      whitespace characters\<close>
  "split_spaces2 [] = [[]]"
| "split_spaces2 [c] = [[c]]"
| "split_spaces2 (c # d # ds) =
     (if is_space c \<and> is_space d then [] # split_spaces2 (dropWhile is_space ds)
      else (case split_spaces2 (d # ds) of
              [] \<Rightarrow> [[c]]
            | l # ls \<Rightarrow> (c # l) # ls))"
  by pat_completeness auto
termination
proof (relation "measure length")
  fix c d :: char and ds :: string
  have "length (dropWhile is_space ds) \<le> length ds"
    by (rule length_dropWhile_le)
  then show "(dropWhile is_space ds, c # d # ds) \<in> measure length"
    by simp
qed simp_all

definition nonblank :: "string list \<Rightarrow> string list" where
  \<comment> \<open>\<open>cols.filter(col => col.trim())\<close>\<close>
  "nonblank cols = filter (\<lambda>col. trim col \<noteq> []) cols"

definition tabSeparated :: "string \<Rightarrow> string list" where
  "tabSeparated line = nonblank (split_on (CHR 0x09) line)"

definition spaceSeparated :: "string \<Rightarrow> string list" where
  "spaceSeparated line = nonblank (split_spaces2 line)"

definition looksLikeTableRow :: "string \<Rightarrow> bool" where
  \<comment> \<open>the test made on the trimmed line itself, on the next and on the previous one;
      for the neighbours the empty line is excluded first\<close>
  "looksLikeTableRow line \<longleftrightarrow>
     line \<noteq> [] \<and>
     (2 \<le> length (tabSeparated line) \<or> (3 \<le> length (spaceSeparated line) \<and> 40 < length line))"

definition width_at :: "nat list \<Rightarrow> nat \<Rightarrow> nat" where
  \<comment> \<open>\<open>maxWidths[idx] || 0\<close>\<close>
  "width_at maxWidths idx = (if idx < length maxWidths then maxWidths ! idx else 0)"

definition set_width :: "nat list \<Rightarrow> nat \<Rightarrow> nat \<Rightarrow> nat list" where
  \<comment> \<open>\<open>maxWidths[idx] = v\<close>; an index past the end extends the array, and the holes
      read as \<open>undefined\<close>, that is as 0 in every use\<close>
  "set_width maxWidths idx v =
     (if idx < length maxWidths then maxWidths[idx := v]
      else maxWidths @ replicate (idx - length maxWidths) 0 @ [v])"

fun row_widths :: "nat list \<Rightarrow> nat \<Rightarrow> string list \<Rightarrow> nat list" where
  \<comment> \<open>the inner \<open>forEach\<close> of the width computation, from column \<open>idx\<close>\<close>
  "row_widths maxWidths idx [] = maxWidths"
| "row_widths maxWidths idx (col # cols) =
     row_widths
       (if width_at maxWidths idx = 0 \<or> width_at maxWidths idx < length col
        then set_width maxWidths idx (min (length col) 50) else maxWidths)
       (Suc idx) cols"

definition padEnd :: "string \<Rightarrow> nat \<Rightarrow> string" where
  "padEnd s width = s @ replicate (width - length s) (CHR 0x20)"

definition format_cell :: "nat list \<Rightarrow> nat \<times> string \<Rightarrow> string" where
  "format_cell maxWidths = (\<lambda>(colIdx, col).
     (let width = width_at maxWidths colIdx;
          displayCol = (if width < length col
                        then substring col 0 (int width - 3) @ ''...'' else col)
      in padEnd displayCol width))"

definition separator_row :: "nat list \<Rightarrow> string list \<Rightarrow> string" where
  "separator_row maxWidths row =
     join ''-|-'' (map (\<lambda>(colIdx, col). replicate (min (width_at maxWidths colIdx) 20) (CHR ''-''))
                     (enumerate 0 row))"

definition pad_columns :: "nat option \<Rightarrow> string list \<Rightarrow> string list" where
  \<comment> \<open>\<open>if (expectedColumns && cols.length < expectedColumns) ...push('')\<close>\<close>
  "pad_columns expectedColumns cols =
     (case expectedColumns of
        None \<Rightarrow> cols
      | Some n \<Rightarrow> cols @ replicate (n - length cols) [])"

definition tableData :: "string list \<Rightarrow> nat option \<Rightarrow> string list list" where
  "tableData rows expectedColumns =
     map (\<lambda>row. pad_columns expectedColumns (map trim (split_on (CHR 0x09) row))) rows"

definition formatTable :: "string list \<Rightarrow> nat option \<Rightarrow> string list" where
  \<comment> \<open>the second argument is \<open>None\<close> when the caller passes one argument only\<close>
  "formatTable rows expectedColumns =
     (if rows = [] then []
      else (let data = tableData rows expectedColumns;
                maxWidths = foldl (\<lambda>mw row. row_widths mw 0 row) [] data
            in concat (map (\<lambda>(rowIdx, row).
                 join '' | '' (map (format_cell maxWidths) (enumerate 0 row))
                 # (if rowIdx = 0 \<and> 1 < length rows then [separator_row maxWidths row] else []))
                 (enumerate 0 data))))"

record table_state =
  enhancedLines :: "string list"
  inTable :: bool
  tableRows :: "string list"
  tableColumnCount :: nat

definition finalize_blank :: "table_state \<Rightarrow> table_state" where
  \<comment> \<open>lines 55 to 64: an empty line; \<open>formatTable\<close> is called with the rows alone\<close>
  "finalize_blank st =
     (let st' = (if inTable st \<and> tableRows st \<noteq> []
                 then st\<lparr>enhancedLines := enhancedLines st @ formatTable (tableRows st) None,
                         tableRows := [], inTable := False, tableColumnCount := 0\<rparr>
                 else st)
      in st'\<lparr>enhancedLines := enhancedLines st' @ [[]]\<rparr>)"

definition finalize_table :: "table_state \<Rightarrow> table_state" where
  \<comment> \<open>lines 108 to 114\<close>
  "finalize_table st =
     (if inTable st \<and> tableRows st \<noteq> []
      then st\<lparr>enhancedLines :=
                 enhancedLines st @ formatTable (tableRows st) (Some (tableColumnCount st)),
              tableRows := [], inTable := False, tableColumnCount := 0\<rparr>
      else st)"

definition table_step :: "string \<Rightarrow> string \<Rightarrow> string \<Rightarrow> table_state \<Rightarrow> table_state" where
  \<comment> \<open>one iteration of the loop of \<open>enhanceTableText\<close>, on the trimmed previous, current
      and next lines (the empty string where there is none)\<close>
  "table_step prevLine line nextLine st =
     (if line = [] then finalize_blank st
      else if looksLikeTableRow line
              \<and> (looksLikeTableRow nextLine \<or> looksLikeTableRow prevLine \<or> inTable st)
      then (let hasTabs = (2 \<le> length (tabSeparated line));
                cols = (if hasTabs then tabSeparated line else spaceSeparated line);
                row = join [CHR 0x09] (map trim cols);
                colCount = length cols
            in st\<lparr>inTable := True,
                   tableColumnCount := (if tableColumnCount st < colCount then colCount
                                        else tableColumnCount st),
                   tableRows := tableRows st @ [row]\<rparr>)
      else (let st' = finalize_table st
            in st'\<lparr>enhancedLines := enhancedLines st' @ [line]\<rparr>))"

fun table_loop :: "string \<Rightarrow> string list \<Rightarrow> table_state \<Rightarrow> table_state" where
  \<comment> \<open>the loop over the lines, with the line before the head of the list\<close>
  "table_loop prev [] st = st"
| "table_loop prev [l] st = table_step (trim prev) (trim l) [] st"
| "table_loop prev (l # m # ls) st =
     table_loop l (m # ls) (table_step (trim prev) (trim l) (trim m) st)"

definition enhanceTableText :: "string \<Rightarrow> string" where
  "enhanceTableText text =
     (let st = table_loop [] (split_on (CHR 0x0A) text)
                 \<lparr>enhancedLines = [], inTable = False, tableRows = [], tableColumnCount = 0\<rparr>;
          st' = (if inTable st \<and> tableRows st \<noteq> []
                 then st\<lparr>enhancedLines :=
                            enhancedLines st
                            @ formatTable (tableRows st) (Some (tableColumnCount st))\<rparr>
                 else st)
      in join [CHR 0x0A] (enhancedLines st'))"

record parsed =
  parsed_text :: string
  pageCount :: int

definition parsePDF :: "env \<Rightarrow> call list \<Rightarrow> buffer \<Rightarrow> (jserror + parsed) \<times> call list" where
  \<comment> \<open>any error of the library is replaced by \<open>Failed to parse PDF file\<close>\<close>
  "parsePDF e calls buf =
     (case pdfParse e calls buf of
        Inl err \<Rightarrow> (Inl (Error ''Failed to parse PDF file''), calls @ [PdfParse])
      | Inr data \<Rightarrow>
          (Inr \<lparr>parsed_text = enhanceTableText (pdf_text data), pageCount = numpages data\<rparr>,
           calls @ [PdfParse]))"

fun space_runs :: "string \<Rightarrow> nat" where
  \<comment> \<open>the number of maximal runs of whitespace\<close>
  "space_runs [] = 0"
| "space_runs [c] = (if is_space c then 1 else 0)"
| "space_runs (c # d # ds) =
     (if is_space c \<and> \<not> is_space d then 1 else 0) + space_runs (d # ds)"

definition parseDOCX :: "env \<Rightarrow> call list \<Rightarrow> buffer \<Rightarrow> (jserror + parsed) \<times> call list" where
  \<comment> \<open>\<open>value.split(/\s+/).length\<close> is one more than the number of whitespace runs;
      the page count is \<open>Math.ceil(wordCount / 500)\<close>\<close>
  "parseDOCX e calls buf =
     (case extractRawText e calls buf of
        Inl err \<Rightarrow> (Inl (Error ''Failed to parse DOCX file''), calls @ [ExtractRawText])
      | Inr v \<Rightarrow>
          (let wordCount = Suc (space_runs v)
           in (Inr \<lparr>parsed_text = v, pageCount = int ((wordCount + 499) div 500)\<rparr>,
               calls @ [ExtractRawText])))"

definition parseCSV :: "env \<Rightarrow> call list \<Rightarrow> buffer \<Rightarrow> (jserror + parsed) \<times> call list" where
  "parseCSV e calls buf =
     (case csv_parse e calls buf of
        Inl err \<Rightarrow> (Inl (Error ''Failed to parse CSV file''), calls @ [CsvParse])
      | Inr records \<Rightarrow>
          (let textContent =
                 join [CHR 0x0A]
                   (map (\<lambda>record. join '' | '' (map (\<lambda>(k, v). k @ '': '' @ v) record)) records)
           in (Inr \<lparr>parsed_text = textContent,
                     pageCount = int ((length records + 49) div 50)\<rparr>,
               calls @ [CsvParse])))"

definition to_lower_char :: "char \<Rightarrow> char" where
  \<comment> \<open>\<open>toLowerCase\<close> on the Latin-1 range\<close>
  "to_lower_char c =
     (let n = (of_char c :: nat)
      in if (65 \<le> n \<and> n \<le> 90) \<or> (192 \<le> n \<and> n \<le> 222 \<and> n \<noteq> 215)
         then char_of (n + 32) else c)"

definition toLowerCase :: "string \<Rightarrow> string" where
  "toLowerCase s = map to_lower_char s"

definition extension :: "string \<Rightarrow> string" where
  \<comment> \<open>\<open>filename.toLowerCase().split('.').pop()\<close>\<close>
  "extension filename = last (split_on (CHR ''.'') (toLowerCase filename))"

definition endsWith :: "string \<Rightarrow> string \<Rightarrow> bool" where
  "endsWith s p \<longleftrightarrow> length p \<le> length s \<and> drop (length s - length p) s = p"

definition parseFile :: "env \<Rightarrow> call list \<Rightarrow> buffer \<Rightarrow> string \<Rightarrow> (jserror + parsed) \<times> call list" where
  "parseFile e calls buf filename =
     (let ext = extension filename
      in if ext = ''pdf'' then parsePDF e calls buf
         else if ext = ''docx'' \<or> ext = ''doc'' then parseDOCX e calls buf
         else if ext = ''csv'' then parseCSV e calls buf
         else (Inl (Error (''Unsupported file type: '' @ ext)), calls))"

section \<open>The store service\<close>

record duplicate_info =
  dup_filename :: "string option"
  dup_uploaded_at :: string
  dup_namespace :: string
  chunks_count :: nat
  vectors_count :: nat

definition matches_length :: "'a list option \<Rightarrow> nat" where
  \<comment> \<open>\<open>queryResponse.matches?.length || 0\<close>\<close>
  "matches_length ms = (case ms of None \<Rightarrow> 0 | Some l \<Rightarrow> length l)"

definition getFileStats ::
  "env \<Rightarrow> call list \<Rightarrow> string \<Rightarrow> string option \<Rightarrow> string option \<Rightarrow> (nat \<times> nat) \<times> call list" where
  \<comment> \<open>the pair is \<open>chunks_count\<close> and \<open>vectors_count\<close>; an error gives zeros\<close>
  "getFileStats e calls indexName fname ns =
     (case query_by_filename e calls indexName ns fname of
        Inl err \<Rightarrow> ((0, 0), calls @ [StoreQueryByFilename indexName ns fname])
      | Inr ms \<Rightarrow> ((matches_length ms, matches_length ms),
                   calls @ [StoreQueryByFilename indexName ns fname]))"

definition checkDuplicateFile ::
  "env \<Rightarrow> call list \<Rightarrow> string \<Rightarrow> string \<Rightarrow> string option \<Rightarrow> duplicate_info option \<times> call list" where
  \<comment> \<open>\<open>None\<close> is \<open>null\<close>. The namespace is \<open>None\<close> when the caller passes \<open>undefined\<close>.\<close>
  "checkDuplicateFile e calls indexName fileHash ns =
     (let calls1 = calls @ [StoreQueryByHash indexName ns fileHash]
      in case query_by_hash e calls indexName ns fileHash of
           Inl err \<Rightarrow> (None, calls1)
         | Inr None \<Rightarrow> (None, calls1)
         | Inr (Some []) \<Rightarrow> (None, calls1)
         | Inr (Some (match # rest)) \<Rightarrow>
             (let metadata = (case match of
                                None \<Rightarrow> \<lparr>md_filename = None, md_uploaded_at = None\<rparr>
                              | Some md \<Rightarrow> md);
                  calls2 = calls1 @ [DescribeIndexStats indexName]
              in case describeIndexStats e calls1 indexName of
                   Inl err \<Rightarrow> (None, calls2)
                 | Inr stats \<Rightarrow>
                     (let (counts, calls3) = getFileStats e calls2 indexName (md_filename metadata) ns
                      in (Some \<lparr>dup_filename = md_filename metadata,
                                 dup_uploaded_at =
                                   (case md_uploaded_at metadata of
                                      None \<Rightarrow> now_iso e calls3
                                    | Some t \<Rightarrow> if t = [] then now_iso e calls3 else t),
                                 dup_namespace = (case ns of None \<Rightarrow> [] | Some n \<Rightarrow> n),
                                 chunks_count = fst counts,
                                 vectors_count = snd counts\<rparr>,
                          calls3))))"

function upsert_batches ::
  "env \<Rightarrow> string \<Rightarrow> string option \<Rightarrow> vector_record list \<Rightarrow> nat \<Rightarrow> nat \<Rightarrow> call list
     \<Rightarrow> (jserror + nat) \<times> call list"
where
  \<comment> \<open>the slices of 100 vectors from index \<open>i\<close>, upserted one after the other; the
      result is the number of batches\<close>
  "upsert_batches e indexName ns vectors i batches calls =
     (if i < length vectors then
        (let batch = take 100 (drop i vectors)
         in case store_upsert e calls indexName ns batch of
              Inl err \<Rightarrow> (Inl err, calls @ [StoreUpsert indexName ns (length batch)])
            | Inr u \<Rightarrow> upsert_batches e indexName ns vectors (i + 100) (Suc batches)
                         (calls @ [StoreUpsert indexName ns (length batch)]))
      else (Inr batches, calls))"
  by pat_completeness auto
termination
  by (relation "measure (\<lambda>(e, indexName, ns, vectors, i, batches, calls). length vectors - i)")
     auto

definition upsertVectors ::
  "env \<Rightarrow> call list \<Rightarrow> string \<Rightarrow> vector_record list \<Rightarrow> string option
     \<Rightarrow> (jserror + nat \<times> nat) \<times> call list" where
  \<comment> \<open>the result is \<open>totalVectors\<close> and \<open>batches\<close>\<close>
  "upsertVectors e calls indexName vectors ns =
     (case upsert_batches e indexName ns vectors 0 0 calls of
        (Inl err, calls') \<Rightarrow> (Inl err, calls')
      | (Inr batches, calls') \<Rightarrow> (Inr (length vectors, batches), calls'))"

section \<open>The embedding service and the embedding stage of the route\<close>

function generateEmbeddingsBatch_from ::
  "env \<Rightarrow> string list \<Rightarrow> int \<Rightarrow> nat \<Rightarrow> vector list \<Rightarrow> call list \<Rightarrow> (jserror + vector list) \<times> call list"
where
  \<comment> \<open>the loop of \<open>generateEmbeddingsBatch\<close> from index \<open>i\<close>, in requests of 100 texts\<close>
  "generateEmbeddingsBatch_from e texts dimensions i embeddings calls =
     (if i < length texts then
        (let batch = take 100 (drop i texts)
         in case embeddings_create e calls batch dimensions of
              Inl err \<Rightarrow> (Inl err, calls @ [EmbeddingsCreate batch dimensions])
            | Inr batchEmbeddings \<Rightarrow>
                generateEmbeddingsBatch_from e texts dimensions (i + 100)
                  (embeddings @ batchEmbeddings) (calls @ [EmbeddingsCreate batch dimensions]))
      else (Inr embeddings, calls))"
  by pat_completeness auto
termination
  by (relation "measure (\<lambda>(e, texts, dimensions, i, embeddings, calls). length texts - i)") auto

definition generateEmbeddingsBatch ::
  "env \<Rightarrow> call list \<Rightarrow> string list \<Rightarrow> int \<Rightarrow> (jserror + vector list) \<times> call list" where
  "generateEmbeddingsBatch e calls texts dimensions =
     generateEmbeddingsBatch_from e texts dimensions 0 [] calls"

definition zeroVector :: "int \<Rightarrow> jserror + vector" where
  \<comment> \<open>\<open>new Array(dimensions).fill(0)\<close>: a length that is negative or above \<open>2^32 - 1\<close>
      throws a \<open>RangeError\<close>\<close>
  "zeroVector dimensions =
     (if 0 \<le> dimensions \<and> dimensions < 4294967296
      then Inr (replicate (nat dimensions) 0)
      else Inl (Error ''Invalid array length''))"

function sub_batches ::
  "env \<Rightarrow> string list \<Rightarrow> int \<Rightarrow> nat \<Rightarrow> vector list \<Rightarrow> string list \<Rightarrow> call list
     \<Rightarrow> (jserror + vector list \<times> string list) \<times> call list"
where
  \<comment> \<open>lines 171 to 185: the loop over the smaller batches, from index \<open>i\<close>, with the
      embeddings and the warnings collected so far\<close>
  "sub_batches e texts dimensions i embeddings warnings calls =
     (let batchSize = max 1 (length texts div 3)
      in if i < length texts then
           (let batch = take batchSize (drop i texts)
            in case generateEmbeddingsBatch e calls batch dimensions of
                 (Inr batchEmbeddings, calls') \<Rightarrow>
                   sub_batches e texts dimensions (i + batchSize)
                     (embeddings @ batchEmbeddings) warnings calls'
               | (Inl batchError, calls') \<Rightarrow>
                   (case zeroVector dimensions of
                      Inl rangeError \<Rightarrow> (Inl rangeError, calls')
                    | Inr z \<Rightarrow>
                        sub_batches e texts dimensions (i + batchSize)
                          (embeddings @ map (\<lambda>t. z) batch)
                          (warnings @ [''Batch '' @ decimal (i div batchSize + 1)
                                       @ '' failed - using zero vectors''])
                          calls'))
         else (Inr (embeddings, warnings), calls))"
  by pat_completeness auto
termination
  by (relation "measure (\<lambda>(e, texts, dimensions, i, embeddings, warnings, calls). length texts - i)")
     auto

datatype response =
    BadRequest string
  | DuplicateFile string duplicate_info
  | EmbeddingsFailed string
  | ServerError string
  | Success nat nat nat "string list"

function embedding_attempts ::
  "env \<Rightarrow> string list \<Rightarrow> int \<Rightarrow> nat \<Rightarrow> call list
     \<Rightarrow> (response + vector list \<times> string list) \<times> call list"
where
  \<comment> \<open>lines 159 to 200: the loop \<open>while (retryCount < maxRetries)\<close>. \<open>Inl\<close> is the response
      of line 187, returned by the route at once; \<open>Inr\<close> carries \<open>embeddings\<close> and
      \<open>embeddingWarnings\<close>. The loop is entered with \<open>retryCount = 0\<close>, so that it is never
      left with \<open>embeddings\<close> unassigned; the last case stands for that.\<close>
  "embedding_attempts e texts dimensions retryCount calls =
     (if retryCount < 3 then
        (case generateEmbeddingsBatch e calls texts dimensions of
           (Inr embeddings, calls') \<Rightarrow> (Inr (embeddings, []), calls')
         | (Inl embeddingError, calls') \<Rightarrow>
             (if 3 \<le> retryCount + 1 then
                (case sub_batches e texts dimensions 0 [] [] calls' of
                   (Inl finalError, calls'') \<Rightarrow>
                     (Inl (EmbeddingsFailed
                             (''Failed to generate embeddings after 3 attempts: ''
                              @ (if message finalError = [] then ''OpenAI API error''
                                 else message finalError))),
                      calls'')
                 | (Inr r, calls'') \<Rightarrow> (Inr r, calls''))
              else embedding_attempts e texts dimensions (retryCount + 1) calls'))
      else (Inr ([], []), calls))"
  by pat_completeness auto
termination
  by (relation "measure (\<lambda>(e, texts, dimensions, retryCount, calls). 3 - retryCount)") auto

definition embedding_stage ::
  "env \<Rightarrow> call list \<Rightarrow> string list \<Rightarrow> int \<Rightarrow> (response + vector list \<times> string list) \<times> call list" where
  "embedding_stage e calls texts dimensions = embedding_attempts e texts dimensions 0 calls"

declare upsert_batches.simps [simp del]
declare generateEmbeddingsBatch_from.simps [simp del]
declare sub_batches.simps [simp del]
declare embedding_attempts.simps [simp del]

section \<open>The route \<open>POST /api/ingest-from-blob\<close>\<close>

record ingest_body =
  req_blobUrl :: string
  req_filename :: string
  req_indexName :: string
  req_namespace :: "string option"
  req_topic :: string
  req_subtopic :: "string option"
  req_source :: string
  req_version :: "string option"
  req_chunkSize :: int
  req_overlap :: int
  req_useHeadings :: bool
  req_dimensions :: int
  req_forceUpload :: bool

definition or_undefined :: "string option \<Rightarrow> string option" where
  \<comment> \<open>\<open>value || undefined\<close>\<close>
  "or_undefined v = (case v of None \<Rightarrow> None | Some s \<Rightarrow> if s = [] then None else Some s)"

definition parse_stage ::
  "env \<Rightarrow> call list \<Rightarrow> buffer \<Rightarrow> string \<Rightarrow> (parsed \<times> string list) \<times> call list" where
  \<comment> \<open>lines 97 to 139: the parsed document and \<open>parseWarnings\<close>\<close>
  "parse_stage e calls buf filename =
     (case parseFile e calls buf filename of
        (Inr p, calls') \<Rightarrow>
          (if parsed_text p = []
           then ((\<lparr>parsed_text = ''No text content extracted from this file. It may contain only images or be encrypted.'',
                    pageCount = (if pageCount p = 0 then 1 else pageCount p)\<rparr>,
                  [''File appears to be empty or could not extract text'']), calls')
           else ((p, []), calls'))
      | (Inl parseError, calls') \<Rightarrow>
          (let w1 = ''Initial parse failed: '' @ message parseError
           in if endsWith (toLowerCase filename) ''.pdf'' then
                (case parsePDF e calls' buf of
                   (Inr fallbackParsed, calls'') \<Rightarrow>
                     (if trim (parsed_text fallbackParsed) \<noteq> []
                      then ((fallbackParsed,
                             [w1, ''Used fallback parsing method - some formatting may be lost'']),
                            calls'')
                      else ((\<lparr>parsed_text = ''[File: '' @ filename
                                  @ ''] - Unable to extract text content. File may be corrupted, encrypted, or image-only. Original error: ''
                                  @ message parseError,
                                pageCount = 1\<rparr>,
                             [w1, ''Could not extract text - created placeholder entry.'']),
                            calls''))
                 | (Inl fallbackError, calls'') \<Rightarrow>
                     ((\<lparr>parsed_text = ''[File: '' @ filename
                            @ ''] - Unable to extract text content. File may be corrupted, encrypted, or image-only. Original error: ''
                            @ message parseError,
                          pageCount = 1\<rparr>,
                       [w1, ''Could not extract text - created placeholder entry.'']),
                      calls''))
              else ((\<lparr>parsed_text = ''[File: '' @ filename @ ''] - Parsing failed: ''
                          @ message parseError @ ''.'',
                        pageCount = 1\<rparr>,
                     [w1, ''Parsing failed - created placeholder entry.'']),
                    calls')))"

fun make_vectors ::
  "env \<Rightarrow> ingest_body \<Rightarrow> parsed \<Rightarrow> string \<Rightarrow> string \<Rightarrow> vector list \<Rightarrow> nat \<Rightarrow> chunk list
     \<Rightarrow> call list \<Rightarrow> vector_record list \<times> call list"
where
  \<comment> \<open>lines 203 to 220: \<open>chunks.map((chunk, index) => ...)\<close> from \<open>index\<close> on; every
      vector takes a fresh \<open>uuidv4()\<close>, and \<open>embeddings[index]\<close> is \<open>None\<close> past the end\<close>
  "make_vectors e body p fileHash uploadedAt embeddings index [] calls = ([], calls)"
| "make_vectors e body p fileHash uploadedAt embeddings index (c # cs) calls =
     (let v = \<lparr>vr_id = uuidv4 e calls @ ''-'' @ decimal index,
                vr_values = (if index < length embeddings then Some (embeddings ! index) else None),
                vr_metadata =
                  \<lparr>m_source = req_source body,
                   m_topic = req_topic body,
                   m_subtopic = or_undefined (req_subtopic body),
                   m_version = or_undefined (req_version body),
                   m_chunk_id = chunk_id c,
                   m_page = (case page c of
                               Some n \<Rightarrow> if n \<noteq> 0 then Some n
                                         else if pageCount p \<noteq> 0 then Some (pageCount p) else None
                             | None \<Rightarrow> if pageCount p \<noteq> 0 then Some (pageCount p) else None),
                   m_filename = req_filename body,
                   m_file_hash = fileHash,
                   m_uploaded_at = uploadedAt,
                   m_text = chunk_text c,
                   m_chunk_text = chunk_text c,
                   m_preview = substring (chunk_text c) 0 200\<rparr>\<rparr>;
          (vs, calls') = make_vectors e body p fileHash uploadedAt embeddings (Suc index) cs
                           (calls @ [Uuid])
      in (v # vs, calls'))"

definition server_error :: "jserror \<Rightarrow> response" where
  \<comment> \<open>the outer \<open>catch\<close>: \<open>error.message || 'Failed to ingest document from blob'\<close>\<close>
  "server_error err =
     ServerError (if message err = [] then ''Failed to ingest document from blob''
                  else message err)"

definition process_file ::
  "env \<Rightarrow> nat \<Rightarrow> ingest_body \<Rightarrow> buffer \<Rightarrow> string \<Rightarrow> string \<Rightarrow> call list
     \<Rightarrow> response option \<times> call list" where
  \<comment> \<open>lines 90 to 250, what the route does once the duplicate check is behind it. The
      result is \<open>None\<close> when the chunker does not finish within \<open>fuel\<close> iterations.\<close>
  "process_file e fuel body buf fileHash uploadedAt calls =
     (let calls1 = calls @ [Uuid, WriteTempFile]
      in case writeFile e (calls @ [Uuid]) of
           Inl err \<Rightarrow> (Some (server_error err), calls1 @ [UnlinkTempFile])
         | Inr u \<Rightarrow>
             (let ((p, parseWarnings), calls2) = parse_stage e calls1 buf (req_filename body)
              in case chunkText fuel (parsed_text p)
                        \<lparr>cfgChunkSize = req_chunkSize body, cfgOverlap = req_overlap body,
                         cfgUseHeadings = req_useHeadings body\<rparr> None of
                   None \<Rightarrow> (None, calls2)
                 | Some chunks \<Rightarrow>
                     (if OPENAI_API_KEY e = []
                      then (Some (ServerError ''OPENAI_API_KEY environment variable is not set''),
                            calls2 @ [UnlinkTempFile])
                      else
                        (case embedding_stage e calls2 (map chunk_text chunks) (req_dimensions body) of
                           (Inl resp, calls3) \<Rightarrow> (Some resp, calls3)
                         | (Inr (embeddings, embeddingWarnings), calls3) \<Rightarrow>
                             (let (vectors, calls4) =
                                    make_vectors e body p fileHash uploadedAt embeddings 0 chunks calls3
                              in if PINECONE_API_KEY e = []
                                 then (Some (ServerError
                                               ''PINECONE_API_KEY environment variable is not set''),
                                       calls4 @ [UnlinkTempFile])
                                 else
                                   (case upsertVectors e calls4 (req_indexName body) vectors
                                           (or_undefined (req_namespace body)) of
                                      (Inl err, calls5) \<Rightarrow>
                                        (Some (server_error err), calls5 @ [UnlinkTempFile])
                                    | (Inr (totalVectors, batches), calls5) \<Rightarrow>
                                        (Some (Success (length chunks) totalVectors batches
                                                 (parseWarnings @ embeddingWarnings)),
                                         calls5 @ [UnlinkTempFile])))))))"

definition display_name :: "string option \<Rightarrow> string" where
  \<comment> \<open>a value that may be \<open>undefined\<close>, inside a template literal\<close>
  "display_name v = (case v of None \<Rightarrow> ''undefined'' | Some s \<Rightarrow> s)"

definition POST :: "env \<Rightarrow> nat \<Rightarrow> ingest_body \<Rightarrow> call list \<Rightarrow> response option \<times> call list" where
  \<comment> \<open>the handler, after the defaults of the body are filled in. \<open>Success\<close> carries
      \<open>chunksCreated\<close>, \<open>vectorsUpserted\<close>, \<open>batches\<close> and the warnings; the size of the
      file in megabytes, a floating-point number for display, is left out.\<close>
  "POST e fuel body calls =
     (if req_blobUrl body = [] \<or> req_filename body = [] \<or> req_indexName body = []
         \<or> req_topic body = [] \<or> req_source body = []
      then (Some (BadRequest ''Missing required fields: blobUrl, filename, indexName, topic, source''),
            calls)
      else
        (let calls1 = calls @ [FetchBlob (req_blobUrl body)]
         in case fetch e calls (req_blobUrl body) of
              Inl err \<Rightarrow> (Some (server_error err), calls1)
            | Inr (ok, statusText, content) \<Rightarrow>
                (if \<not> ok
                 then (Some (ServerError (''Failed to download file from blob: '' @ statusText)),
                       calls1)
                 else
                   (case content of
                      Inl err \<Rightarrow> (Some (server_error err), calls1)
                    | Inr buf \<Rightarrow>
                        (let fileHash = sha256_hex e buf;
                             uploadedAt = now_iso e calls1
                         in if \<not> req_forceUpload body then
                              (if PINECONE_API_KEY e = []
                               then (Some (ServerError
                                             ''PINECONE_API_KEY environment variable is not set''),
                                     calls1)
                               else
                                 (case checkDuplicateFile e calls1 (req_indexName body) fileHash
                                         (or_undefined (req_namespace body)) of
                                    (Some duplicate, calls2) \<Rightarrow>
                                      (Some (DuplicateFile
                                               (''This file has already been uploaded as ''
                                                @ [CHR 0x27] @ display_name (dup_filename duplicate)
                                                @ [CHR 0x27])
                                               duplicate),
                                       calls2)
                                  | (None, calls2) \<Rightarrow>
                                      process_file e fuel body buf fileHash uploadedAt calls2))
                            else process_file e fuel body buf fileHash uploadedAt calls1)))))"

section \<open>Environments for the examples\<close>

text \<open>
  In \<open>degraded_env\<close> the store cannot be queried and the embedding provider rejects the
  credentials; everything else works. In \<open>duplicate_env\<close> the store already holds the
  file, and the provider fails its first four requests and then answers each text with
  a vector of ones of the requested length. \<open>stats_failing_env\<close> is \<open>duplicate_env\<close>
  with a store whose index statistics cannot be read.
\<close>

definition degraded_env :: env where
  "degraded_env =
     \<lparr>PINECONE_API_KEY = ''pc-key'',
      OPENAI_API_KEY = ''sk-key'',
      fetch = (\<lambda>calls url. Inr (True, ''OK'', Inr ''file bytes'')),
      sha256_hex = (\<lambda>buf. ''9f86d081884c7d65''),
      now_iso = (\<lambda>calls. ''2024-05-01T12:00:00.000Z''),
      uuidv4 = (\<lambda>calls. ''uuid'' @ decimal (length calls)),
      query_by_hash = (\<lambda>calls indexName ns fileHash. Inl (Error ''store unreachable'')),
      describeIndexStats = (\<lambda>calls indexName. Inr ()),
      query_by_filename = (\<lambda>calls indexName ns fname. Inr (Some [])),
      writeFile = (\<lambda>calls. Inr ()),
      pdfParse = (\<lambda>calls buf.
        Inr \<lparr>pdf_text = ''A report of sixty characters or more, so that one chunk comes out of it.'',
             numpages = 1\<rparr>),
      extractRawText = (\<lambda>calls buf. Inl (Error ''not a DOCX file'')),
      csv_parse = (\<lambda>calls buf. Inl (Error ''not a CSV file'')),
      embeddings_create = (\<lambda>calls batch dimensions. Inl (Error ''401 Incorrect API key provided'')),
      store_upsert = (\<lambda>calls indexName ns batch. Inr ())\<rparr>"

fun is_embedding_call :: "call \<Rightarrow> bool" where
  "is_embedding_call (EmbeddingsCreate batch dimensions) = True"
| "is_embedding_call c = False"

definition duplicate_env :: env where
  "duplicate_env =
     degraded_env
       \<lparr>query_by_hash := (\<lambda>calls indexName ns fileHash.
          Inr (Some [Some \<lparr>md_filename = Some ''report.pdf'',
                            md_uploaded_at = Some ''2024-04-30T08:00:00.000Z''\<rparr>])),
        query_by_filename := (\<lambda>calls indexName ns fname. Inr (Some [None, None, None])),
        embeddings_create := (\<lambda>calls batch dimensions.
          if length (filter is_embedding_call calls) < 4
          then Inl (Error ''429 Rate limit reached'')
          else Inr (map (\<lambda>t. replicate (nat dimensions) 1) batch))\<rparr>"

definition stats_failing_env :: env where
  "stats_failing_env =
     duplicate_env
       \<lparr>describeIndexStats := (\<lambda>calls indexName. Inl (Error ''stats unavailable''))\<rparr>"

definition example_body :: "string \<Rightarrow> int \<Rightarrow> ingest_body" where
  \<comment> \<open>a request for the file of the given name, with the default chunk configuration\<close>
  "example_body fname dims =
     \<lparr>req_blobUrl = ''https://blob.example/f'', req_filename = fname,
      req_indexName = ''docs'', req_namespace = None, req_topic = ''reports'',
      req_subtopic = None, req_source = ''upload'', req_version = None,
      req_chunkSize = 2000, req_overlap = 300, req_useHeadings = False,
      req_dimensions = dims, req_forceUpload = False\<rparr>"

definition well_shaped :: "env \<Rightarrow> int \<Rightarrow> bool" where
  \<comment> \<open>the assumption on the provider: a request that succeeds returns one vector of the
      requested length for each input\<close>
  "well_shaped e dimensions \<longleftrightarrow>
     (\<forall>calls batch vs. embeddings_create e calls batch dimensions = Inr vs \<longrightarrow>
        length vs = length batch \<and> (\<forall>v \<in> set vs. int (length v) = dimensions))"

definition shaped :: "int \<Rightarrow> vector list \<Rightarrow> bool" where
  \<comment> \<open>every vector has the length \<open>dimensions\<close>\<close>
  "shaped dimensions vs \<longleftrightarrow> (\<forall>v \<in> set vs. int (length v) = dimensions)"

section \<open>Auxiliary notions for the chunker's properties\<close>

text \<open>
  The lines of a text joined by line feeds, and a predicate on a list of heading offsets:
  every offset is followed, before the next one, by a character that is not whitespace.
  Both serve the proofs only.
\<close>

fun join_nl :: "string list \<Rightarrow> string" where
  "join_nl [] = []"
| "join_nl [l] = l"
| "join_nl (l # m # ls) = l @ CHR 0x0A # join_nl (m # ls)"

fun sections_ok :: "string \<Rightarrow> int list \<Rightarrow> bool" where
  "sections_ok text [] = True"
| "sections_ok text (h # rest) =
     (0 \<le> h
      \<and> (\<exists>p. h \<le> p \<and> p < int (length text) \<and> (\<forall>h' \<in> set rest. p < h')
             \<and> \<not> is_space (text ! nat p))
      \<and> (\<forall>h' \<in> set rest. h \<le> h')
      \<and> sections_ok text rest)"

subsection \<open>The break rules as the specification words them\<close>

text \<open>
  The window is the \<open>chunkSize\<close> characters from \<open>start\<close>. A rule takes the last
  position of its kind in the window, accepts it when the position exceeds its share of
  \<open>chunkSize\<close>, and cuts just after the break (after both line feeds of a paragraph
  break, at the end of the whitespace that follows a sentence, after the line feed,
  after the space). The break is that of the first rule that applies, in the order
  paragraph, sentence, line, word; with none, it is the end of the window.

  The test ``exceeds its share'' is a parameter. \<open>exceeds_share\<close> is the test of the
  specification, in exact arithmetic: the position is compared with 0.5, 0.6 or 0.7 times
  \<open>chunkSize\<close>. \<open>exceeds_double\<close> compares it with the double-precision product.
\<close>

definition window :: "string \<Rightarrow> int \<Rightarrow> int \<Rightarrow> string" where
  "window text chunkSize start = take (nat chunkSize) (drop (nat start) text)"

fun last_pos :: "(nat \<Rightarrow> bool) \<Rightarrow> nat \<Rightarrow> nat option" where
  "last_pos P 0 = None"
| "last_pos P (Suc n) = (if P n then Some n else last_pos P n)"

definition paragraph_break_at :: "string \<Rightarrow> nat \<Rightarrow> bool" where
  "paragraph_break_at w i \<longleftrightarrow> Suc i < length w \<and> w ! i = CHR 0x0A \<and> w ! Suc i = CHR 0x0A"

definition sentence_end_at :: "string \<Rightarrow> nat \<Rightarrow> bool" where
  "sentence_end_at w i \<longleftrightarrow> Suc i < length w \<and> is_sentence_ender (w ! i) \<and> is_space (w ! Suc i)"

definition sentence_end_position :: "string \<Rightarrow> nat \<Rightarrow> nat" where
  "sentence_end_position w i = Suc i + length (takeWhile is_space (drop (Suc i) w))"

datatype share = Half | Six_tenths | Seven_tenths

fun exceeds_share :: "int \<Rightarrow> int \<Rightarrow> share \<Rightarrow> bool" where
  \<comment> \<open>\<open>k > 0.5 \<times> chunkSize\<close>, \<open>k > 0.6 \<times> chunkSize\<close>, \<open>k > 0.7 \<times> chunkSize\<close>, on integers\<close>
  "exceeds_share k chunkSize Half = (chunkSize < 2 * k)"
| "exceeds_share k chunkSize Six_tenths = (6 * chunkSize < 10 * k)"
| "exceeds_share k chunkSize Seven_tenths = (7 * chunkSize < 10 * k)"

fun exceeds_double :: "int \<Rightarrow> int \<Rightarrow> share \<Rightarrow> bool" where
  "exceeds_double k chunkSize Half = exceeds k chunkSize half_53"
| "exceeds_double k chunkSize Six_tenths = exceeds k chunkSize six_tenths_53"
| "exceeds_double k chunkSize Seven_tenths = exceeds k chunkSize seven_tenths_53"

definition rule ::
  "(int \<Rightarrow> int \<Rightarrow> share \<Rightarrow> bool) \<Rightarrow> int option \<Rightarrow> int \<Rightarrow> share \<Rightarrow> int \<Rightarrow> int option" where
  "rule accepts position chunkSize s after =
     (case position of
        None \<Rightarrow> None
      | Some k \<Rightarrow> if accepts k chunkSize s then Some (k + after) else None)"

fun first_applicable :: "int option list \<Rightarrow> int option" where
  "first_applicable [] = None"
| "first_applicable (None # rs) = first_applicable rs"
| "first_applicable (Some k # rs) = Some k"

definition break_by_rules ::
  "(int \<Rightarrow> int \<Rightarrow> share \<Rightarrow> bool) \<Rightarrow> string \<Rightarrow> int \<Rightarrow> int \<Rightarrow> int" where
  "break_by_rules accepts text chunkSize start =
     (let w = window text chunkSize start;
          paragraph = map_option int (last_pos (paragraph_break_at w) (length w));
          sentence = map_option (\<lambda>i. int (sentence_end_position w i))
                       (last_pos (sentence_end_at w) (length w));
          newline = map_option int (last_pos (\<lambda>i. w ! i = CHR 0x0A) (length w));
          space = map_option int (last_pos (\<lambda>i. w ! i = CHR 0x20) (length w))
      in case first_applicable
                [rule accepts paragraph chunkSize Six_tenths 2,
                 rule accepts sentence chunkSize Half 0,
                 rule accepts newline chunkSize Half 1,
                 rule accepts space chunkSize Seven_tenths 1] of
           Some k \<Rightarrow> start + k
         | None \<Rightarrow> start + chunkSize)"

definition spec_break :: "string \<Rightarrow> int \<Rightarrow> int \<Rightarrow> int" where
  \<comment> \<open>the break of the specification: the shares are taken exactly\<close>
  "spec_break text chunkSize start = break_by_rules exceeds_share text chunkSize start"

section \<open>The degradation ladder of the embedding stage\<close>

text \<open>
  The ladder, rung by rung. The full batch is requested up to three times, each attempt
  made whatever the error of the one before. When the three attempts have failed, the
  texts are cut into sub-batches of \<open>max 1 (n div 3)\<close> texts, and each sub-batch is
  requested once; a sub-batch whose request fails gets one zero vector for each of its
  texts and a warning that carries its number. The ladder has embeddings and warnings
  for its only outcome.
\<close>

fun full_batch_attempts ::
  "env \<Rightarrow> string list \<Rightarrow> int \<Rightarrow> nat \<Rightarrow> call list \<Rightarrow> vector list option \<times> call list" where
  \<comment> \<open>up to \<open>n\<close> requests for all the texts; \<open>None\<close> when every one of them failed\<close>
  "full_batch_attempts e texts dimensions 0 calls = (None, calls)"
| "full_batch_attempts e texts dimensions (Suc n) calls =
     (case generateEmbeddingsBatch e calls texts dimensions of
        (Inr embeddings, calls') \<Rightarrow> (Some embeddings, calls')
      | (Inl err, calls') \<Rightarrow> full_batch_attempts e texts dimensions n calls')"

function slices :: "nat \<Rightarrow> 'a list \<Rightarrow> 'a list list" where
  \<comment> \<open>a list cut into consecutive pieces of \<open>n\<close> elements, the last one possibly shorter\<close>
  "slices n xs = (if n = 0 \<or> xs = [] then [] else take n xs # slices n (drop n xs))"
  by pat_completeness auto
termination
  by (relation "measure (\<lambda>(n, xs). length xs)") auto

declare slices.simps [simp del]

fun degraded_sub_batches ::
  "env \<Rightarrow> int \<Rightarrow> nat \<Rightarrow> string list list \<Rightarrow> call list
     \<Rightarrow> (vector list \<times> string list) \<times> call list" where
  \<comment> \<open>one request for each sub-batch, numbered from \<open>k\<close>\<close>
  "degraded_sub_batches e dimensions k [] calls = (([], []), calls)"
| "degraded_sub_batches e dimensions k (batch # rest) calls =
     (case generateEmbeddingsBatch e calls batch dimensions of
        (Inr batchEmbeddings, calls') \<Rightarrow>
          (let ((embeddings, warnings), calls'') =
                 degraded_sub_batches e dimensions (Suc k) rest calls'
           in ((batchEmbeddings @ embeddings, warnings), calls''))
      | (Inl err, calls') \<Rightarrow>
          (let ((embeddings, warnings), calls'') =
                 degraded_sub_batches e dimensions (Suc k) rest calls'
           in ((replicate (length batch) (replicate (nat dimensions) 0) @ embeddings,
                (''Batch '' @ decimal k @ '' failed - using zero vectors'') # warnings),
               calls'')))"

definition degradation_ladder ::
  "env \<Rightarrow> call list \<Rightarrow> string list \<Rightarrow> int \<Rightarrow> (vector list \<times> string list) \<times> call list" where
  "degradation_ladder e calls texts dimensions =
     (case full_batch_attempts e texts dimensions 3 calls of
        (Some embeddings, calls') \<Rightarrow> ((embeddings, []), calls')
      | (None, calls') \<Rightarrow>
          degraded_sub_batches e dimensions 1
            (slices (max 1 (length texts div 3)) texts) calls')"
section \<open>Termination and monotonic advance of the simple chunker\<close>

lemma lastIndexOf_from_ge: "- 1 \<le> lastIndexOf_from s p k"
  by (induction k) auto

lemma lastIndexOf_ge: "- 1 \<le> lastIndexOf s p"
  by (simp add: lastIndexOf_def lastIndexOf_from_ge)

lemma round53_nonneg: "0 \<le> n \<Longrightarrow> 0 \<le> round53 n"
  by (auto simp: round53_def Let_def intro!: mult_nonneg_nonneg pos_imp_zdiv_nonneg_iff[THEN iffD2] add_nonneg_nonneg)

lemma exceeds_pos: "0 \<le> chunkSize \<Longrightarrow> 0 \<le> c \<Longrightarrow> exceeds k chunkSize c \<Longrightarrow> 0 < k"
proof -
  assume a: "0 \<le> chunkSize" "0 \<le> c" "exceeds k chunkSize c"
  have "0 \<le> round53 (\<bar>chunkSize\<bar> * c)" using a by (intro round53_nonneg) simp
  then have "0 \<le> sgn chunkSize * round53 (\<bar>chunkSize\<bar> * c)"
    using a(1) by (simp add: sgn_if)
  with a(3) have "0 < k * 2 ^ 53" by (simp add: exceeds_def)
  then show ?thesis by (simp add: zero_less_mult_iff)
qed

lemma actualEndIndex_advances:
  assumes "1 \<le> chunkSize" "start < int (length text)"
  shows "start < actualEndIndex text chunkSize start"
proof -
  have cs: "0 \<le> chunkSize" using assms by simp
  have c: "0 \<le> half_53" "0 \<le> six_tenths_53" "0 \<le> seven_tenths_53"
    by (simp_all add: half_53_def six_tenths_53_def seven_tenths_53_def)
  note pos = exceeds_pos[OF cs]
  show ?thesis
    unfolding actualEndIndex_def Let_def
    using assms lastIndexOf_ge[of "substring text start (min (start + chunkSize) (int (length text)))" "[CHR 0x0A, CHR 0x0A]"]
    by (auto dest: pos[OF c(1)] pos[OF c(2)] pos[OF c(3)])
qed


lemma chunkSimple_loop_terminates:
  assumes "1 \<le> chunkSize"
    and "nat (int (length text) - start) \<le> n"
    and "sorted_wrt (<) (map startIndex chunks)"
    and "\<forall>c \<in> set chunks. startIndex c < start"
  shows "\<exists>out. chunkSimple_loop n text chunkSize overlap pageNumber start chunkId chunks = Some out
           \<and> sorted_wrt (<) (map startIndex out)"
  using assms(2-4)
proof (induction n arbitrary: start chunkId chunks)
  case 0
  then show ?case by simp
next
  case (Suc n)
  show ?case
  proof (cases "start < int (length text)")
    case False
    with Suc.prems show ?thesis by simp
  next
    case True
    define e where "e = actualEndIndex text chunkSize start"
    have adv: "start < e"
      unfolding e_def using assms(1) True by (rule actualEndIndex_advances)
    define nxt where "nxt = (if e - overlap \<le> start then e else e - overlap)"
    have nxt: "start < nxt" using adv by (simp add: nxt_def)
    show ?thesis
    proof (cases "50 < length (trim (substring text start e))")
      case emit: True
      define c where "c = \<lparr>chunk_id = ''chunk-'' @ decimal chunkId,
          chunk_text = trim (substring text start e), startIndex = start,
          endIndex = e, page = pageNumber\<rparr>"
      have 1: "nat (int (length text) - nxt) \<le> n"
        using Suc.prems(1) nxt True by linarith
      have 2: "sorted_wrt (<) (map startIndex (chunks @ [c]))"
        using Suc.prems(2,3) by (auto simp: sorted_wrt_append c_def)
      have 3: "\<forall>d \<in> set (chunks @ [c]). startIndex d < nxt"
        using Suc.prems(3) nxt by (auto simp: c_def)
      have step: "chunkSimple_loop (Suc n) text chunkSize overlap pageNumber start chunkId chunks
          = chunkSimple_loop n text chunkSize overlap pageNumber nxt (Suc chunkId) (chunks @ [c])"
        using True emit by (simp add: Let_def e_def[symmetric] c_def nxt_def)
      show ?thesis
        unfolding step by (rule Suc.IH[OF 1 2 3])
    next
      case skip: False
      have 1: "nat (int (length text) - e) \<le> n"
        using Suc.prems(1) adv True by linarith
      have 3: "\<forall>d \<in> set chunks. startIndex d < e"
        using Suc.prems(3) adv by auto
      have step: "chunkSimple_loop (Suc n) text chunkSize overlap pageNumber start chunkId chunks
          = chunkSimple_loop n text chunkSize overlap pageNumber e chunkId chunks"
        using True skip by (simp add: Let_def e_def[symmetric])
      show ?thesis
        unfolding step by (rule Suc.IH[OF 1 Suc.prems(2) 3])
    qed
  qed
qed

text \<open>
  Claim C4, as amended. For every text, every integer overlap (also one that is at least
  the chunk size) and every integer chunk size of at least 1, the loop of \<open>chunkSimple\<close>
  ends within \<open>length text\<close> iterations, and the start indices of the chunks it returns
  are strictly increasing.
\<close>

theorem chunkSimple_terminates:
  "1 \<le> chunkSize \<Longrightarrow>
   \<exists>chunks. chunkSimple (length text) text chunkSize overlap pageNumber = Some chunks
     \<and> sorted_wrt (<) (map startIndex chunks)"
  unfolding chunkSimple_def
  by (rule chunkSimple_loop_terminates) simp_all

text \<open>
  With a chunk size of 0 the window is empty, nothing is emitted and the start index
  stays where it is: on a non-empty text no number of iterations is enough.
\<close>

lemma chunkSimple_loop_zero_size:
  "chunkSimple_loop n ''a'' 0 overlap pageNumber 0 chunkId chunks = None"
proof (induction n)
  case 0
  show ?case by simp
next
  case (Suc n)
  have e: "actualEndIndex ''a'' 0 0 = 0"
    by code_simp
  have t: "trim (substring ''a'' 0 0) = []"
    by code_simp
  show ?case using Suc by (simp add: e t)
qed

theorem chunkSimple_zero_size_counterexample:
  "chunkSimple (length ''a'') ''a'' 0 0 None = None"
  by (simp add: chunkSimple_def chunkSimple_loop_zero_size)

theorem chunkSimple_terminates_witness:
  "(1::int) \<le> 70 \<and>
   (\<exists>chunks. chunkSimple (length ''alpha beta gamma delta epsilon zeta eta theta iota kappa lambda mu nu xi omicron pi rho sigma tau upsilon phi chi psi omega and then some more words'') ''alpha beta gamma delta epsilon zeta eta theta iota kappa lambda mu nu xi omicron pi rho sigma tau upsilon phi chi psi omega and then some more words'' 70 200 None = Some chunks
     \<and> sorted_wrt (<) (map startIndex chunks))"
  using chunkSimple_terminates [of 70 "''alpha beta gamma delta epsilon zeta eta theta iota kappa lambda mu nu xi omicron pi rho sigma tau upsilon phi chi psi omega and then some more words''" 200 None]
  by simp


section \<open>What the simple chunker emits\<close>

lemma trim_eq_Nil_iff: "trim s = [] \<longleftrightarrow> (\<forall>c \<in> set s. is_space c)"
proof -
  have "trim s = [] \<longleftrightarrow> (\<forall>c \<in> set (dropWhile is_space s). is_space c)"
    by (simp add: trim_def dropWhile_eq_Nil_conv)
  also have "\<dots> \<longleftrightarrow> dropWhile is_space s = []"
    using hd_dropWhile[of is_space s]
    by (cases "dropWhile is_space s") (auto dest: set_dropWhileD)
  also have "\<dots> \<longleftrightarrow> (\<forall>c \<in> set s. is_space c)"
    by (simp add: dropWhile_eq_Nil_conv)
  finally show ?thesis .
qed


lemma chunkSimple_loop_emitted:
  assumes "chunkSimple_loop n text chunkSize overlap pageNumber start chunkId chunks = Some out"
    and "c \<in> set out"
  shows "c \<in> set chunks \<or>
         (chunk_text c = trim (substring text (startIndex c) (endIndex c))
          \<and> 50 < length (chunk_text c) \<and> page c = pageNumber)"
  using assms
proof (induction n arbitrary: start chunkId chunks)
  case 0
  then show ?case by (simp split: if_splits)
next
  case (Suc n)
  show ?case
  proof (cases "start < int (length text)")
    case False
    with Suc.prems show ?thesis by simp
  next
    case True
    define e where "e = actualEndIndex text chunkSize start"
    show ?thesis
    proof (cases "50 < length (trim (substring text start e))")
      case emit: True
      define d where "d = \<lparr>chunk_id = ''chunk-'' @ decimal chunkId,
          chunk_text = trim (substring text start e), startIndex = start,
          endIndex = e, page = pageNumber\<rparr>"
      define nxt where "nxt = (if e - overlap \<le> start then e else e - overlap)"
      have "chunkSimple_loop n text chunkSize overlap pageNumber nxt (Suc chunkId) (chunks @ [d])
              = Some out"
        using Suc.prems(1) True emit by (simp add: Let_def e_def[symmetric] d_def nxt_def split: if_splits)
      from Suc.IH[OF this Suc.prems(2)] show ?thesis
        using emit by (auto simp: d_def)
    next
      case skip: False
      have "chunkSimple_loop n text chunkSize overlap pageNumber e chunkId chunks = Some out"
        using Suc.prems(1) True skip by (simp add: Let_def e_def[symmetric] split: if_splits)
      from Suc.IH[OF this Suc.prems(2)] show ?thesis .
    qed
  qed
qed

lemma lastIndexOf_Nil: "p \<noteq> [] \<Longrightarrow> lastIndexOf [] p = - 1"
  by (simp add: lastIndexOf_def)

lemma substring_nonpos: "a \<le> 0 \<Longrightarrow> b \<le> 0 \<Longrightarrow> substring s a b = []"
  by (simp add: substring_def clamp_index_def)

lemma actualEndIndex_negative_start:
  assumes "start < 0" "chunkSize < 0"
  shows "actualEndIndex text chunkSize start \<le> 0"
proof -
  have w: "substring text start (start + chunkSize) = []"
    using assms by (intro substring_nonpos) simp_all
  have m: "min (start + chunkSize) (int (length text)) = start + chunkSize"
    using assms by simp
  show ?thesis
    unfolding actualEndIndex_def m Let_def w using assms
    by (simp add: lastIndexOf_Nil)
qed

lemma actualEndIndex_not_before:
  assumes "0 \<le> chunkSize" "start < int (length text)"
  shows "start \<le> actualEndIndex text chunkSize start"
proof -
  have c: "0 \<le> half_53" "0 \<le> six_tenths_53" "0 \<le> seven_tenths_53"
    by (simp_all add: half_53_def six_tenths_53_def seven_tenths_53_def)
  note pos = exceeds_pos[OF assms(1)]
  show ?thesis
    unfolding actualEndIndex_def Let_def
    using assms lastIndexOf_ge[of "substring text start (min (start + chunkSize) (int (length text)))" "[CHR 0x0A, CHR 0x0A]"]
    by (auto dest: pos[OF c(1)] pos[OF c(2)] pos[OF c(3)])
qed

lemma chunkSimple_loop_start_nonneg:
  assumes "chunkSimple_loop n text chunkSize overlap pageNumber start chunkId chunks = Some out"
    and "c \<in> set out"
    and "0 \<le> start \<or> chunkSize < 0"
  shows "c \<in> set chunks \<or> 0 \<le> startIndex c"
  using assms
proof (induction n arbitrary: start chunkId chunks)
  case 0
  then show ?case by (simp split: if_splits)
next
  case (Suc n)
  show ?case
  proof (cases "start < int (length text)")
    case False
    with Suc.prems show ?thesis by simp
  next
    case True
    define e where "e = actualEndIndex text chunkSize start"
    have e_nn: "0 \<le> e \<or> chunkSize < 0"
      using actualEndIndex_not_before[of chunkSize start "text"] True Suc.prems(3)
      by (auto simp: e_def)
    show ?thesis
    proof (cases "50 < length (trim (substring text start e))")
      case emit: True
      have s_nn: "0 \<le> start"
      proof (rule ccontr)
        assume "\<not> 0 \<le> start"
        then have "start < 0" "chunkSize < 0" using Suc.prems(3) by auto
        then have "substring text start e = []"
          using actualEndIndex_negative_start[of start chunkSize "text"]
          by (intro substring_nonpos) (simp_all add: e_def)
        with emit show False by (simp add: trim_def)
      qed
      define d where "d = \<lparr>chunk_id = ''chunk-'' @ decimal chunkId,
          chunk_text = trim (substring text start e), startIndex = start,
          endIndex = e, page = pageNumber\<rparr>"
      define nxt where "nxt = (if e - overlap \<le> start then e else e - overlap)"
      have n_nn: "0 \<le> nxt \<or> chunkSize < 0" using e_nn s_nn by (auto simp: nxt_def)
      have "chunkSimple_loop n text chunkSize overlap pageNumber nxt (Suc chunkId) (chunks @ [d])
              = Some out"
        using Suc.prems(1) True emit by (simp add: Let_def e_def[symmetric] d_def nxt_def split: if_splits)
      from Suc.IH[OF this Suc.prems(2) n_nn] show ?thesis
        using s_nn by (auto simp: d_def)
    next
      case skip: False
      have "chunkSimple_loop n text chunkSize overlap pageNumber e chunkId chunks = Some out"
        using Suc.prems(1) True skip by (simp add: Let_def e_def[symmetric] split: if_splits)
      from Suc.IH[OF this Suc.prems(2) e_nn] show ?thesis .
    qed
  qed
qed


section \<open>Heading offsets\<close>

lemma split_on_not_Nil: "split_on c s \<noteq> []"
  by (induction s) (auto split: list.splits)

lemma join_split_on: "join_nl (split_on (CHR 0x0A) s) = s"
proof (induction s)
  case Nil
  show ?case by simp
next
  case (Cons x xs)
  obtain l ls where sp: "split_on (CHR 0x0A) xs = l # ls"
    using split_on_not_Nil[of "CHR 0x0A" xs] by (cases "split_on (CHR 0x0A) xs") auto
  show ?case using Cons sp by (cases ls) auto
qed

lemma isHeading_nonempty: "isHeading n i line \<Longrightarrow> line \<noteq> []"
  by (auto simp: isHeading_def all_caps_line_def markdown_heading_line_def Let_def)

lemma heading_scan_ok:
  assumes "0 \<le> cur" "drop (nat cur) text = join_nl ls" "cur \<le> int (length text)"
  shows "sections_ok text (heading_scan n i cur ls)
         \<and> (\<forall>h \<in> set (heading_scan n i cur ls). cur \<le> h)"
  using assms
proof (induction ls arbitrary: i cur)
  case Nil
  show ?case by simp
next
  case (Cons l ls)
  define cur' where "cur' = cur + int (length l) + 1"
  define R where "R = heading_scan n (Suc i) cur' ls"
  have R: "sections_ok text R \<and> (\<forall>h \<in> set R. cur' \<le> h)"
  proof (cases ls)
    case Nil
    then show ?thesis by (simp add: R_def)
  next
    case (Cons m ms)
    have "drop (nat cur') text = drop (length l + 1) (drop (nat cur) text)"
      using Cons.prems(1) by (simp add: cur'_def nat_add_distrib add.commute)
    also have "\<dots> = join_nl ls"
      using Cons.prems(2) Cons by simp
    finally have "drop (nat cur') text = join_nl ls" .
    moreover have "0 \<le> cur'" using Cons.prems(1) by (simp add: cur'_def)
    moreover have "cur' \<le> int (length text)"
    proof -
      have "length (drop (nat cur) text) = length l + 1 + length (join_nl ls)"
        using Cons.prems(2) Cons by simp
      then show ?thesis using Cons.prems(1,3) by (simp add: cur'_def)
    qed
    ultimately show ?thesis unfolding R_def by (intro Cons.IH)
  qed
  obtain rest where pre: "drop (nat cur) text = l @ rest"
    using Cons.prems(2) by (cases ls) auto
  have len: "nat cur + length l \<le> length text"
  proof -
    have "length (drop (nat cur) text) = length l + length rest" using pre by simp
    then show ?thesis using Cons.prems(1,3) by simp
  qed
  have here: "\<exists>p. cur \<le> p \<and> p < int (length text) \<and> (\<forall>h' \<in> set R. p < h')
               \<and> \<not> is_space (text ! nat p)"
    if "isHeading n i (trim l)"
  proof -
    from that have "trim l \<noteq> []" by (rule isHeading_nonempty)
    then obtain c where "c \<in> set l" "\<not> is_space c" by (auto simp: trim_eq_Nil_iff)
    then obtain j where j: "j < length l" "\<not> is_space (l ! j)"
      by (auto simp: in_set_conv_nth)
    have "text ! (nat cur + j) = drop (nat cur) text ! j"
      using len j(1) by simp
    also have "\<dots> = l ! j" using pre j(1) by (simp add: nth_append)
    finally have "\<not> is_space (text ! nat (cur + int j))"
      using j(2) Cons.prems(1) by (simp add: nat_add_distrib)
    moreover have "cur + int j < int (length text)" using len j(1) Cons.prems(1) by linarith
    moreover have "\<forall>h' \<in> set R. cur + int j < h'" using R j(1) by (auto simp: cur'_def)
    ultimately show ?thesis by (intro exI[of _ "cur + int j"]) simp
  qed
  have up: "\<forall>h \<in> set R. cur \<le> h" using R by (auto simp: cur'_def)
  show ?case
    using R here up Cons.prems(1)
    by (simp add: R_def[symmetric] cur'_def[symmetric])
qed

lemma headingIndices_ok: "sections_ok text (headingIndices text)"
  unfolding headingIndices_def Let_def
  using heading_scan_ok[of 0 "text" "split_on (CHR 0x0A) text"]
  by (simp add: join_split_on)



section \<open>Chunks of both modes\<close>

lemma renumber_mem:
  assumes "d \<in> set (renumber chunkId h cs)"
  shows "\<exists>c \<in> set cs. chunk_text d = chunk_text c \<and> startIndex d = startIndex c + h
           \<and> endIndex d = endIndex c + h \<and> page d = page c"
  using assms by (auto simp: renumber_def in_set_enumerate_eq)

lemma chunkSimple_emitted:
  assumes "chunkSimple fuel text chunkSize overlap pageNumber = Some out" "c \<in> set out"
  shows "chunk_text c = trim (substring text (startIndex c) (endIndex c))
         \<and> 50 < length (chunk_text c) \<and> page c = pageNumber \<and> 0 \<le> startIndex c"
proof -
  note run = assms[unfolded chunkSimple_def]
  have "c \<notin> set []" by simp
  with chunkSimple_loop_emitted[OF run] chunkSimple_loop_start_nonneg[OF run]
  show ?thesis by blast
qed


lemma substring_from:
  assumes "0 \<le> h" "h \<le> a" "h \<le> b"
  shows "\<exists>k n. substring s a b = take n (drop (nat h + k) s)"
proof -
  define x where "x = clamp_index s a"
  define y where "y = clamp_index s b"
  have sub: "substring s a b = take (max x y - min x y) (drop (min x y) s)"
    by (simp add: substring_def x_def y_def Let_def)
  show ?thesis
  proof (cases "nat h \<le> min x y")
    case True
    then have "min x y = nat h + (min x y - nat h)" by simp
    then show ?thesis unfolding sub by metis
  next
    case False
    have x: "nat h \<le> x \<or> x = length s" using assms unfolding x_def clamp_index_def by linarith
    have y: "nat h \<le> y \<or> y = length s" using assms unfolding y_def clamp_index_def by linarith
    have "x \<le> length s" "y \<le> length s" unfolding x_def y_def clamp_index_def by linarith+
    with False x y have "x = length s" "y = length s" by linarith+
    then have "substring s a b = take 0 (drop (nat h + 0) s)" unfolding sub by simp
    then show ?thesis by blast
  qed
qed

lemma substring_of_slice:
  "\<exists>k' n'. substring (take n (drop j s)) a b = take n' (drop (j + k') s)"
proof -
  define t where "t = take n (drop j s)"
  define x where "x = clamp_index t a"
  define y where "y = clamp_index t b"
  have "substring t a b = take (max x y - min x y) (drop (min x y) t)"
    by (simp add: substring_def x_def y_def Let_def)
  also have "\<dots> = take (max x y - min x y) (take (n - min x y) (drop (min x y) (drop j s)))"
    by (simp add: t_def drop_take)
  also have "\<dots> = take (min (max x y - min x y) (n - min x y)) (drop (j + min x y) s)"
    by (simp add: add.commute)
  finally show ?thesis unfolding t_def by blast
qed

lemma sections_loop_origin:
  assumes "sections_loop fuel text chunkSize overlap pageNumber hs chunkId chunks = Some out"
    and "c \<in> set out"
    and "\<forall>h \<in> set hs. b \<le> h"
    and "0 \<le> b" and "b \<le> int (length text)"
  shows "c \<in> set chunks \<or>
         (b \<le> startIndex c \<and> (\<exists>k n. chunk_text c = trim (take n (drop (nat b + k) text))))"
  using assms(1-3)
proof (induction hs arbitrary: chunkId chunks)
  case Nil
  then show ?case by simp
next
  case (Cons h rest)
  define he where "he = (case rest of [] \<Rightarrow> int (length text) | h' # _ \<Rightarrow> h')"
  define sec where "sec = substring text h he"
  have b: "\<forall>h \<in> set rest. b \<le> h" "b \<le> h" using Cons.prems(3) by auto
  have "b \<le> he" using b(1) assms(5) by (cases rest) (auto simp: he_def)
  then obtain k1 n1 where sec': "sec = take n1 (drop (nat b + k1) text)"
    unfolding sec_def using substring_from[OF assms(4) b(2)] by blast
  show ?case
  proof (cases "chunkSize < int (length sec)")
    case True
    then obtain sc where sc: "chunkSimple fuel sec chunkSize overlap pageNumber = Some sc"
      and loop: "sections_loop fuel text chunkSize overlap pageNumber rest
                   (chunkId + length sc) (chunks @ renumber chunkId h sc) = Some out"
      using Cons.prems(1)
      by (auto simp: Let_def he_def[symmetric] sec_def[symmetric] split: option.splits)
    have new: "b \<le> startIndex d \<and> (\<exists>k n. chunk_text d = trim (take n (drop (nat b + k) text)))"
      if "d \<in> set (renumber chunkId h sc)" for d
    proof -
      from that obtain c' where c': "c' \<in> set sc" "startIndex d = startIndex c' + h"
        "chunk_text d = chunk_text c'"
        using renumber_mem by blast
      have e: "chunk_text c' = trim (substring sec (startIndex c') (endIndex c'))"
        "0 \<le> startIndex c'"
        using chunkSimple_emitted[OF sc c'(1)] by blast+
      obtain k' n' where "substring sec (startIndex c') (endIndex c')
                            = take n' (drop (nat b + k1 + k') text)"
        unfolding sec' using substring_of_slice by blast
      then have "chunk_text d = trim (take n' (drop (nat b + (k1 + k')) text))"
        using c'(3) e(1) by (simp add: add.assoc)
      then show ?thesis using c'(2) e(2) b(2) by fastforce
    qed
    from Cons.IH[OF loop Cons.prems(2) b(1)] show ?thesis using new by auto
  next
    case False
    define d where "d = \<lparr>chunk_id = ''chunk-'' @ decimal chunkId, chunk_text = trim sec,
        startIndex = h, endIndex = he, page = pageNumber\<rparr>"
    have loop: "sections_loop fuel text chunkSize overlap pageNumber rest (Suc chunkId)
                  (chunks @ [d]) = Some out"
      using Cons.prems(1) False
      by (simp add: Let_def he_def[symmetric] sec_def[symmetric] d_def)
    have "chunk_text d = trim (take n1 (drop (nat b + k1) text))"
      using sec' by (simp add: d_def)
    then have new: "b \<le> startIndex d
        \<and> (\<exists>k n. chunk_text d = trim (take n (drop (nat b + k) text)))"
      using b(2) by (auto simp: d_def)
    from Cons.IH[OF loop Cons.prems(2) b(1)] show ?thesis
    proof (elim disjE)
      assume "c \<in> set (chunks @ [d])"
      then consider "c \<in> set chunks" | "c = d" by auto
      then show ?thesis using new by cases simp_all
    qed simp
  qed
qed




text \<open>
  Claim C10. In the heading-guided mode, when a heading is detected, with \<open>h\<close> the
  offset of the first one, every chunk starts at \<open>h\<close> or later, and its text is a
  trimmed slice of the text from \<open>h\<close> on: the text before the first heading is in no
  chunk.
\<close>

theorem chunkWithHeadings_skips_prefix:
  assumes "headingIndices text = h # hs"
    and "chunkWithHeadings fuel text chunkSize overlap pageNumber = Some chunks"
    and "c \<in> set chunks"
  shows "h \<le> startIndex c \<and> (\<exists>k n. chunk_text c = trim (take n (drop (nat h + k) text)))"
proof -
  have ok: "sections_ok text (h # hs)" using headingIndices_ok[of "text"] assms(1) by simp
  then have b: "\<forall>h' \<in> set (h # hs). h \<le> h'" "0 \<le> h" "h \<le> int (length text)" by auto
  have "sections_loop fuel text chunkSize overlap pageNumber (h # hs) 0 [] = Some chunks"
    using assms(1,2) by (simp add: chunkWithHeadings_def)
  from sections_loop_origin[OF this assms(3) b] show ?thesis by simp
qed

theorem chunkWithHeadings_skips_prefix_witness:
  "headingIndices ''This opening line is long enough, with more than eighty characters, not to count as a heading.\<newline>TITLE\<newline>body'' = [95]
   \<and> chunkWithHeadings 0 ''This opening line is long enough, with more than eighty characters, not to count as a heading.\<newline>TITLE\<newline>body'' 1000 200 None
       = Some [\<lparr>chunk_id = ''chunk-0'', chunk_text = ''TITLE\<newline>body'', startIndex = 95,
                 endIndex = 105, page = None\<rparr>]
   \<and> (95::int) \<le> startIndex \<lparr>chunk_id = ''chunk-0'', chunk_text = ''TITLE\<newline>body'', startIndex = 95,
                 endIndex = 105, page = None\<rparr>"
proof -
  have h: "headingIndices ''This opening line is long enough, with more than eighty characters, not to count as a heading.\<newline>TITLE\<newline>body'' = [95]"
    by code_simp
  have run: "chunkWithHeadings 0 ''This opening line is long enough, with more than eighty characters, not to count as a heading.\<newline>TITLE\<newline>body'' 1000 200 None
       = Some [\<lparr>chunk_id = ''chunk-0'', chunk_text = ''TITLE\<newline>body'', startIndex = 95,
                 endIndex = 105, page = None\<rparr>]"
    by code_simp
  from chunkWithHeadings_skips_prefix[OF h run] show ?thesis using h run by simp
qed

section \<open>The break rules\<close>

lemma last_pos_cong: "(\<And>i. i < n \<Longrightarrow> P i = Q i) \<Longrightarrow> last_pos P n = last_pos Q n"
  by (induction n) auto

lemma last_pos_None: "(\<And>i. i < n \<Longrightarrow> \<not> P i) \<Longrightarrow> last_pos P n = None"
  by (induction n) auto

lemma last_pos_Some:
  "last_pos P n = Some i \<longleftrightarrow> i < n \<and> P i \<and> (\<forall>j. i < j \<and> j < n \<longrightarrow> \<not> P j)"
proof (induction n)
  case 0
  show ?case by simp
next
  case (Suc n)
  show ?case using Suc by (auto simp: less_Suc_eq)
qed

lemma last_pos_Suc_front:
  "last_pos P (Suc n) =
     (case last_pos (\<lambda>i. P (Suc i)) n of
        Some i \<Rightarrow> Some (Suc i)
      | None \<Rightarrow> if P 0 then Some 0 else None)"
  by (induction n) (auto split: option.splits)

lemma last_pos_skip:
  assumes "\<And>i. i < k \<Longrightarrow> \<not> P i"
  shows "last_pos P (k + n) = map_option (\<lambda>i. k + i) (last_pos (\<lambda>i. P (k + i)) n)"
  using assms
proof (induction n)
  case 0
  then show ?case by (simp add: last_pos_None)
next
  case (Suc n)
  then show ?case by simp
qed

lemma lastIndexOf_from_last_pos:
  "lastIndexOf_from s p k =
     (case last_pos (\<lambda>j. take (length p) (drop j s) = p) (Suc k) of
        None \<Rightarrow> - 1 | Some j \<Rightarrow> int j)"
  by (induction k) auto

lemma lastIndexOf_char:
  "lastIndexOf w [c] = (case last_pos (\<lambda>i. w ! i = c) (length w) of None \<Rightarrow> - 1 | Some j \<Rightarrow> int j)"
proof (cases w)
  case Nil
  then show ?thesis by (simp add: lastIndexOf_def)
next
  case (Cons x xs)
  have "last_pos (\<lambda>j. take (length [c]) (drop j w) = [c]) (length w)
          = last_pos (\<lambda>i. w ! i = c) (length w)"
    by (rule last_pos_cong) (simp add: take_Suc_conv_app_nth hd_drop_conv_nth take_Suc)
  then show ?thesis using Cons
    by (simp add: lastIndexOf_def lastIndexOf_from_last_pos del: last_pos.simps)
qed

lemma lastIndexOf_paragraph:
  "lastIndexOf w [CHR 0x0A, CHR 0x0A] =
     (case last_pos (paragraph_break_at w) (length w) of None \<Rightarrow> - 1 | Some j \<Rightarrow> int j)"
proof (cases "2 \<le> length w")
  case False
  then have "last_pos (paragraph_break_at w) (length w) = None"
    by (intro last_pos_None) (simp add: paragraph_break_at_def)
  then show ?thesis using False by (simp add: lastIndexOf_def)
next
  case True
  then obtain n where n: "length w = Suc (Suc n)"
    by (metis Suc_le_D numeral_2_eq_2 Suc_le_mono)
  have tk: "take (Suc (Suc 0)) (drop j w) = [w ! j, w ! Suc j]" if "j \<le> n" for j
  proof -
    have "drop j w = w ! j # w ! Suc j # drop (Suc (Suc j)) w"
      using that n by (simp add: Cons_nth_drop_Suc)
    then show ?thesis by simp
  qed
  have "last_pos (\<lambda>j. take (length [CHR 0x0A, CHR 0x0A]) (drop j w) = [CHR 0x0A, CHR 0x0A]) (Suc n)
          = last_pos (paragraph_break_at w) (Suc n)"
    by (rule last_pos_cong) (auto simp: tk paragraph_break_at_def n)
  moreover have "last_pos (paragraph_break_at w) (length w) = last_pos (paragraph_break_at w) (Suc n)"
    by (simp add: n paragraph_break_at_def)
  ultimately show ?thesis using n
    by (simp add: lastIndexOf_def lastIndexOf_from_last_pos del: last_pos.simps)
qed

lemma last_pos_append:
  assumes "\<And>i. i < n \<Longrightarrow> P (k + i) = Q i"
  shows "last_pos P (k + n) =
           (case last_pos Q n of Some i \<Rightarrow> Some (k + i) | None \<Rightarrow> last_pos P k)"
  using assms by (induction n) auto

lemma sentence_end_at_append:
  "sentence_end_at (pre @ rest) (length pre + i) = sentence_end_at rest i"
  by (simp add: sentence_end_at_def nth_append)

lemma sentence_end_position_append:
  "sentence_end_position (pre @ rest) (length pre + i) = length pre + sentence_end_position rest i"
  by (simp add: sentence_end_position_def)

lemma ender_not_space: "is_sentence_ender c \<Longrightarrow> \<not> is_space c"
  by (auto simp: is_sentence_ender_def is_space_def)

lemma sentence_scan_last_pos:
  "sentence_scan pos s lastEnd =
     (case last_pos (sentence_end_at s) (length s) of
        None \<Rightarrow> lastEnd
      | Some i \<Rightarrow> int (pos + sentence_end_position s i))"
proof (induction pos s lastEnd rule: sentence_scan.induct)
  case (1 pos lastEnd)
  show ?case by simp
next
  case (2 pos c lastEnd)
  show ?case by (simp add: sentence_end_at_def)
next
  case (3 pos c d ds lastEnd)
  show ?case
  proof (cases "is_sentence_ender c \<and> is_space d")
    case True
    define run where "run = takeWhile is_space (d # ds)"
    define rest where "rest = dropWhile is_space (d # ds)"
    define pre where "pre = c # run"
    have s: "c # d # ds = pre @ rest" by (simp add: pre_def run_def rest_def)
    have run: "run \<noteq> []" "\<forall>x \<in> set run. is_space x"
      using True by (auto simp: run_def dest: set_takeWhileD)
    have P0: "sentence_end_at (pre @ rest) 0"
      using True s[symmetric] by (simp add: sentence_end_at_def)
    have Pn: "\<not> sentence_end_at (pre @ rest) j" if "0 < j" "j < length pre" for j
    proof -
      have "j - 1 < length run" using that by (simp add: pre_def)
      then have "(pre @ rest) ! j = run ! (j - 1)"
        using that by (simp add: pre_def nth_append nth_Cons')
      moreover have "run ! (j - 1) \<in> set run"
        using \<open>j - 1 < length run\<close> by (rule nth_mem)
      ultimately show ?thesis using run(2) ender_not_space by (auto simp: sentence_end_at_def)
    qed
    have pre0: "last_pos (sentence_end_at (pre @ rest)) (length pre) = Some 0"
      unfolding last_pos_Some using P0 Pn by (auto simp: pre_def)
    have lp: "last_pos (sentence_end_at (pre @ rest)) (length (pre @ rest)) =
        (case last_pos (sentence_end_at rest) (length rest) of
           Some i \<Rightarrow> Some (length pre + i) | None \<Rightarrow> Some 0)"
      using last_pos_append[of "length rest" "sentence_end_at (pre @ rest)" "length pre"
          "sentence_end_at rest"]
      by (simp add: sentence_end_at_append pre0 split: option.splits)
    have sp0: "sentence_end_position (pre @ rest) 0 = length pre"
      using s[symmetric] by (simp add: sentence_end_position_def pre_def run_def)
    have "sentence_scan pos (c # d # ds) lastEnd =
        sentence_scan (pos + 1 + length run) rest (int (pos + 1 + length run))"
      using True by (simp add: Let_def run_def rest_def)
    also have "\<dots> = (case last_pos (sentence_end_at rest) (length rest) of
        None \<Rightarrow> int (pos + 1 + length run)
      | Some i \<Rightarrow> int (pos + 1 + length run + sentence_end_position rest i))"
      unfolding run_def rest_def by (rule "3.IH"(1)[OF True refl])
    also have "\<dots> = (case last_pos (sentence_end_at (pre @ rest)) (length (pre @ rest)) of
        None \<Rightarrow> lastEnd
      | Some i \<Rightarrow> int (pos + sentence_end_position (pre @ rest) i))"
      unfolding lp
      by (simp add: sentence_end_position_append sp0 split: option.splits)
         (simp_all add: pre_def)
    finally show ?thesis unfolding s .
  next
    case False
    define rest where "rest = d # ds"
    define pre where "pre = [c]"
    have s: "c # d # ds = pre @ rest" by (simp add: pre_def rest_def)
    have P0: "\<not> sentence_end_at (pre @ rest) 0"
      using False s[symmetric] by (simp add: sentence_end_at_def)
    have pre0: "last_pos (sentence_end_at (pre @ rest)) (length pre) = None"
      using P0 by (simp add: pre_def)
    have lp: "last_pos (sentence_end_at (pre @ rest)) (length (pre @ rest)) =
        (case last_pos (sentence_end_at rest) (length rest) of
           Some i \<Rightarrow> Some (length pre + i) | None \<Rightarrow> None)"
      using last_pos_append[of "length rest" "sentence_end_at (pre @ rest)" "length pre"
          "sentence_end_at rest"]
      by (simp add: sentence_end_at_append pre0 split: option.splits)
    have "sentence_scan pos (c # d # ds) lastEnd = sentence_scan (pos + 1) (d # ds) lastEnd"
      using False by auto
    also have "\<dots> = (case last_pos (sentence_end_at rest) (length rest) of
        None \<Rightarrow> lastEnd
      | Some i \<Rightarrow> int (pos + 1 + sentence_end_position rest i))"
      unfolding rest_def by (rule "3.IH"(2)[OF False])
    also have "\<dots> = (case last_pos (sentence_end_at (pre @ rest)) (length (pre @ rest)) of
        None \<Rightarrow> lastEnd
      | Some i \<Rightarrow> int (pos + sentence_end_position (pre @ rest) i))"
      unfolding lp
      by (simp add: sentence_end_position_append split: option.splits)
         (simp_all add: pre_def)
    finally show ?thesis unfolding s .
  qed
qed

lemma substring_window:
  assumes "0 \<le> start" "0 \<le> chunkSize" "start + chunkSize \<le> int (length text)"
  shows "substring text start (start + chunkSize) = window text chunkSize start"
  using assms
  by (simp add: substring_def window_def clamp_index_def Let_def max_def min_def nat_add_distrib)

lemma not_exceeds_minus_one: "0 \<le> chunkSize \<Longrightarrow> 0 \<le> c \<Longrightarrow> \<not> exceeds (- 1) chunkSize c"
  using exceeds_pos[of chunkSize c "- 1"] by auto

lemma bit_length_bounds:
  "0 < n \<Longrightarrow> 2 ^ (bit_length n - 1) \<le> n \<and> n < 2 ^ bit_length n"
proof (induction n rule: bit_length.induct)
  case (1 n)
  have bl: "bit_length n = Suc (bit_length (n div 2))"
    using "1.prems" by (subst bit_length.simps) simp
  show ?case
  proof (cases "n div 2 \<le> 0")
    case True
    then have "n = 1" using "1.prems" by linarith
    then show ?thesis using True bl by (simp add: bit_length.simps[of 0])
  next
    case False
    then have pos: "0 < n div 2" by simp
    have nz: "\<not> n \<le> 0" using "1.prems" by simp
    from "1.IH"[OF nz pos]
    have lo: "2 ^ (bit_length (n div 2) - 1) \<le> n div 2"
      and hi: "n div 2 < 2 ^ bit_length (n div 2)" by simp_all
    have ge1: "1 \<le> bit_length (n div 2)"
      using pos by (subst bit_length.simps) simp
    then obtain m where m: "bit_length (n div 2) = Suc m"
      by (cases "bit_length (n div 2)") simp_all
    have "(2::int) ^ (bit_length n - 1) = 2 * 2 ^ m" by (simp add: bl m)
    also have "\<dots> \<le> 2 * (n div 2)" using lo by (simp add: m)
    also have "\<dots> \<le> n" by linarith
    finally have a: "2 ^ (bit_length n - 1) \<le> n" .
    have "n < 2 * (n div 2) + 2" by linarith
    also have "\<dots> \<le> 2 * 2 ^ bit_length (n div 2)" using hi by linarith
    finally have b: "n < 2 ^ bit_length n" by (simp add: bl)
    show ?thesis using a b by simp
  qed
qed

lemma round53_error:
  assumes "0 \<le> n"
  shows "\<bar>round53 n - n\<bar> * 2 ^ 53 \<le> n"
proof (cases "bit_length n \<le> 53")
  case True
  then show ?thesis using assms by (simp add: round53_def)
next
  case False
  define sh where "sh = bit_length n - 53"
  define h :: int where "h = 2 ^ (sh - 1)"
  define q where "q = n div 2 ^ sh"
  define r where "r = n mod 2 ^ sh"
  have sh1: "1 \<le> sh" using False by (simp add: sh_def)
  have p: "(2::int) ^ sh = 2 * h"
    using sh1 unfolding h_def by (cases sh) simp_all
  have hpos: "0 < h" by (simp add: h_def)
  have n: "n = q * (2 * h) + r"
    using div_mult_mod_eq[of n "2 ^ sh"] unfolding q_def r_def p by simp
  have r: "0 \<le> r" "r < 2 * h" unfolding r_def p[symmetric] by simp_all
  have "round53 n = (if h < r \<or> (r = h \<and> odd q) then q + 1 else q) * 2 ^ sh"
    unfolding round53_def Let_def sh_def[symmetric] q_def[symmetric] r_def[symmetric]
      h_def[symmetric] using False by simp
  then have R: "round53 n = (if h < r \<or> (r = h \<and> odd q) then q + 1 else q) * (2 * h)"
    unfolding p .
  have err: "\<bar>round53 n - n\<bar> \<le> h"
    unfolding R using n r by (auto simp: algebra_simps)
  have npos: "0 < n" using False assms by (cases "n = 0") (simp_all add: bit_length.simps[of 0])
  have "h * 2 ^ 53 = 2 ^ (sh - 1 + 53)" unfolding h_def by (simp add: power_add)
  also have "sh - 1 + 53 = bit_length n - 1" using False by (simp add: sh_def)
  also have "(2::int) ^ (bit_length n - 1) \<le> n" using bit_length_bounds[OF npos] by simp
  finally have "h * 2 ^ 53 \<le> n" .
  moreover have "\<bar>round53 n - n\<bar> * 2 ^ 53 \<le> h * 2 ^ 53"
    using err by (intro mult_right_mono) simp_all
  ultimately show ?thesis by linarith
qed

lemma round53_exact_half:
  assumes "0 \<le> cs" "cs < 2 ^ 53"
  shows "round53 (cs * half_53) = cs * half_53"
proof (cases "bit_length (cs * half_53) \<le> 53")
  case True
  then show ?thesis by (simp add: round53_def)
next
  case False
  define n where "n = cs * half_53"
  define sh where "sh = bit_length n - 53"
  have h52: "half_53 = 2 ^ 52" by (simp add: half_53_def)
  have npos: "0 < n" using False assms unfolding n_def
    by (cases "cs = 0") (simp_all add: bit_length.simps[of 0] h52)
  have "n < 2 ^ 53 * 2 ^ 52" unfolding n_def h52 using assms by (intro mult_strict_right_mono) simp_all
  then have "n < 2 ^ 105" by simp
  moreover have "2 ^ (bit_length n - 1) \<le> n" using bit_length_bounds[OF npos] by simp
  ultimately have "(2::int) ^ (bit_length n - 1) < 2 ^ 105" by linarith
  then have "bit_length n - 1 < 105" by (simp only: power_strict_increasing_iff[of "2::int"] rel_simps)
  then have sh: "sh \<le> 52" "1 \<le> sh" using False by (simp_all add: sh_def n_def)
  have "(2::int) ^ sh dvd 2 ^ 52" using sh(1) by (intro le_imp_power_dvd)
  then have dv: "(2::int) ^ sh dvd n" unfolding n_def h52 by (rule dvd_mult)
  then have r: "n mod 2 ^ sh = 0" by simp
  have hp: "(0::int) < 2 ^ (sh - 1)" by simp
  have "round53 n = n div 2 ^ sh * 2 ^ sh"
    using False hp unfolding round53_def Let_def n_def[symmetric] sh_def[symmetric] r
    by (auto simp: n_def)
  also have "\<dots> = n" using dv by simp
  finally show ?thesis unfolding n_def .
qed


lemma round53_zero: "round53 0 = 0"
  by (simp add: round53_def bit_length.simps[of 0])

lemma round53_near:
  assumes "0 \<le> cs" "0 \<le> c" "c < 2 ^ 53"
  shows "\<bar>round53 (cs * c) - cs * c\<bar> \<le> cs"
proof -
  have n: "0 \<le> cs * c" using assms by simp
  have "cs * c \<le> cs * 2 ^ 53" using assms by (intro mult_left_mono) simp_all
  with round53_error[OF n] have "\<bar>round53 (cs * c) - cs * c\<bar> * 2 ^ 53 \<le> cs * 2 ^ 53"
    by linarith
  then show ?thesis by simp
qed

lemma exceeds_double_half:
  assumes "0 \<le> chunkSize" "chunkSize < 2 ^ 49"
  shows "exceeds_double k chunkSize Half \<longleftrightarrow> exceeds_share k chunkSize Half"
proof -
  have "chunkSize < 2 ^ 53" using assms(2) by simp
  from round53_exact_half[OF assms(1) this]
  show ?thesis using assms(1)
    by (cases "chunkSize = 0") (simp_all add: exceeds_def sgn_if half_53_def)
qed

lemma exceeds_double_six_tenths:
  assumes "0 \<le> chunkSize" "chunkSize < 2 ^ 49"
  shows "(exceeds_share k chunkSize Six_tenths \<longrightarrow> exceeds_double k chunkSize Six_tenths)
         \<and> (exceeds_double k chunkSize Six_tenths \<longrightarrow> 6 * chunkSize \<le> 10 * k)"
proof -
  define R where "R = round53 (chunkSize * six_tenths_53)"
  define n where "n = chunkSize * six_tenths_53"
  have near: "\<bar>R - n\<bar> \<le> chunkSize"
    unfolding R_def n_def by (rule round53_near[OF assms(1)]) (simp_all add: six_tenths_53_def)
  have n10: "10 * n = 6 * chunkSize * 9007199254740992 - 2 * chunkSize"
    by (simp add: n_def six_tenths_53_def)
  have cs: "chunkSize < 562949953421312" using assms(2) by simp
  have ex: "exceeds k chunkSize six_tenths_53 \<longleftrightarrow> R < k * 9007199254740992"
    using assms(1) by (cases "chunkSize = 0") (simp_all add: exceeds_def sgn_if R_def round53_zero)
  show ?thesis
    unfolding exceeds_double.simps exceeds_share.simps ex
    using near n10 cs assms(1) by auto
qed

lemma exceeds_double_seven_tenths:
  assumes "0 \<le> chunkSize" "chunkSize < 2 ^ 49"
  shows "(exceeds_share k chunkSize Seven_tenths \<longrightarrow> exceeds_double k chunkSize Seven_tenths)
         \<and> (exceeds_double k chunkSize Seven_tenths \<longrightarrow> 7 * chunkSize \<le> 10 * k)"
proof -
  define R where "R = round53 (chunkSize * seven_tenths_53)"
  define n where "n = chunkSize * seven_tenths_53"
  have near: "\<bar>R - n\<bar> \<le> chunkSize"
    unfolding R_def n_def by (rule round53_near[OF assms(1)]) (simp_all add: seven_tenths_53_def)
  have n10: "10 * n = 7 * chunkSize * 9007199254740992 - 4 * chunkSize"
    by (simp add: n_def seven_tenths_53_def)
  have cs: "chunkSize < 562949953421312" using assms(2) by simp
  have ex: "exceeds k chunkSize seven_tenths_53 \<longleftrightarrow> R < k * 9007199254740992"
    using assms(1) by (cases "chunkSize = 0") (simp_all add: exceeds_def sgn_if R_def round53_zero)
  show ?thesis
    unfolding exceeds_double.simps exceeds_share.simps ex
    using near n10 cs assms(1) by auto
qed

lemma actualEndIndex_break_by_rules:
  assumes "0 \<le> start" "0 \<le> chunkSize" "start + chunkSize < int (length text)"
  shows "actualEndIndex text chunkSize start = break_by_rules exceeds_double text chunkSize start"
proof -
  define w where "w = window text chunkSize start"
  have m: "min (start + chunkSize) (int (length text)) = start + chunkSize"
    using assms(3) by simp
  have sub: "substring text start (start + chunkSize) = w"
    unfolding w_def using assms by (intro substring_window) simp_all
  have c: "0 \<le> half_53" "0 \<le> six_tenths_53" "0 \<le> seven_tenths_53"
    by (simp_all add: half_53_def six_tenths_53_def seven_tenths_53_def)
  note no = not_exceeds_minus_one[OF assms(2)]
  show ?thesis
    unfolding actualEndIndex_def break_by_rules_def m sub w_def[symmetric] Let_def
      lastIndexOf_paragraph lastIndexOf_char sentence_scan_last_pos
    using assms(3) no[OF c(1)] no[OF c(2)] no[OF c(3)]
    by (simp add: rule_def split: option.splits)
qed

text \<open>
  Claim C8, as amended. For an integer \<open>chunkSize\<close> from 0 to below \<open>2 ^ 49\<close> and a window
  that starts at a non-negative index and ends strictly before the end of the text, the end
  that \<open>chunkSimple\<close> computes is the break of the first applicable rule in the order
  paragraph break (share 0.6 of \<open>chunkSize\<close>), sentence end (0.5), line feed (0.5), space
  (0.7), and the end of the window when no rule applies. A rule compares its position
  with the double-precision product of \<open>chunkSize\<close> and its share. For the share 0.5 this
  is the exact comparison. For the shares 0.6 and 0.7 a position strictly above the exact
  share is accepted and a position strictly below it is refused; a position equal to the
  exact share is accepted when the product is rounded below it.
\<close>

theorem actualEndIndex_priority:
  assumes "0 \<le> start" "0 \<le> chunkSize" "chunkSize < 2 ^ 49"
    and "start + chunkSize < int (length text)"
  shows "actualEndIndex text chunkSize start = break_by_rules exceeds_double text chunkSize start
         \<and> (\<forall>k. exceeds_double k chunkSize Half \<longleftrightarrow> exceeds_share k chunkSize Half)
         \<and> (\<forall>k. (exceeds_share k chunkSize Six_tenths \<longrightarrow> exceeds_double k chunkSize Six_tenths)
                \<and> (exceeds_double k chunkSize Six_tenths \<longrightarrow> 6 * chunkSize \<le> 10 * k))
         \<and> (\<forall>k. (exceeds_share k chunkSize Seven_tenths \<longrightarrow> exceeds_double k chunkSize Seven_tenths)
                \<and> (exceeds_double k chunkSize Seven_tenths \<longrightarrow> 7 * chunkSize \<le> 10 * k))"
  using actualEndIndex_break_by_rules[OF assms(1,2,4)]
    exceeds_double_half[OF assms(2,3)] exceeds_double_six_tenths[OF assms(2,3)]
    exceeds_double_seven_tenths[OF assms(2,3)]
  by blast

theorem actualEndIndex_priority_witness:
  "break_by_rules exceeds_double ''First part.\<newline>\<newline>Second part, which goes on and on for some words. And on.'' 16 0 = 13 \<and>
   break_by_rules exceeds_double ''First part. Second part, which goes on and on for some words. And on.'' 20 0 = 12 \<and>
   break_by_rules exceeds_double ''First line is here\<newline>second part, which goes on and on for some words. And on.'' 30 0 = 19 \<and>
   break_by_rules exceeds_double ''First part, second part, which goes on and on for some words. And on.'' 20 0 = 19 \<and>
   break_by_rules exceeds_double ''First_part,_second_part, which goes on and on for some words. And on.'' 20 0 = 20 \<and>
   exceeds_double 19 20 Seven_tenths \<and> exceeds_double 64 90 Seven_tenths"
proof -
  have e1: "actualEndIndex ''First part.\<newline>\<newline>Second part, which goes on and on for some words. And on.'' 16 0 = 13"
    by code_simp
  have l1: "(0::int) + 16 < int (length ''First part.\<newline>\<newline>Second part, which goes on and on for some words. And on.'')"
    by simp
  from actualEndIndex_priority[OF _ _ _ l1] e1
  have r1: "break_by_rules exceeds_double ''First part.\<newline>\<newline>Second part, which goes on and on for some words. And on.'' 16 0 = 13"
    by simp
  have e2: "actualEndIndex ''First part. Second part, which goes on and on for some words. And on.'' 20 0 = 12"
    by code_simp
  have l2: "(0::int) + 20 < int (length ''First part. Second part, which goes on and on for some words. And on.'')"
    by simp
  from actualEndIndex_priority[OF _ _ _ l2] e2
  have r2: "break_by_rules exceeds_double ''First part. Second part, which goes on and on for some words. And on.'' 20 0 = 12"
    by simp
  have e3: "actualEndIndex ''First line is here\<newline>second part, which goes on and on for some words. And on.'' 30 0 = 19"
    by code_simp
  have l3: "(0::int) + 30 < int (length ''First line is here\<newline>second part, which goes on and on for some words. And on.'')"
    by simp
  from actualEndIndex_priority[OF _ _ _ l3] e3
  have r3: "break_by_rules exceeds_double ''First line is here\<newline>second part, which goes on and on for some words. And on.'' 30 0 = 19"
    by simp
  have e4: "actualEndIndex ''First part, second part, which goes on and on for some words. And on.'' 20 0 = 19"
    by code_simp
  have l4: "(0::int) + 20 < int (length ''First part, second part, which goes on and on for some words. And on.'')"
    by simp
  from actualEndIndex_priority[OF _ _ _ l4] e4
  have r4: "break_by_rules exceeds_double ''First part, second part, which goes on and on for some words. And on.'' 20 0 = 19"
    by simp
  have e5: "actualEndIndex ''First_part,_second_part, which goes on and on for some words. And on.'' 20 0 = 20"
    by code_simp
  have l5: "(0::int) + 20 < int (length ''First_part,_second_part, which goes on and on for some words. And on.'')"
    by simp
  from actualEndIndex_priority[OF _ _ _ l5] e5
  have r5: "break_by_rules exceeds_double ''First_part,_second_part, which goes on and on for some words. And on.'' 20 0 = 20"
    by simp
  have s4: "exceeds_share 19 20 Seven_tenths" by simp
  from actualEndIndex_priority[OF _ _ _ l4] s4
  have r6: "exceeds_double 19 20 Seven_tenths"
    by simp
  have l7: "(0::int) + 90 < int (length (replicate 63 CHR ''a'' @ '' '' @ replicate 40 CHR ''b''))"
    by simp
  have s7: "exceeds_share 64 90 Seven_tenths" by simp
  from actualEndIndex_priority[OF _ _ _ l7] s7
  have r7: "exceeds_double 64 90 Seven_tenths"
    by simp
  show ?thesis using r1 r2 r3 r4 r5 r6 r7 by blast
qed

text \<open>
  The claim as the specification words it fails on two sides. With \<open>chunkSize = 90\<close> and
  the only space of the window at index 63, the position does not exceed
  \<open>0.7 \<times> 90 = 63\<close> and the specification cuts at the end of the window; the product
  \<open>90 * 0.7\<close> is the double \<open>62.99999999999999\<close>, and \<open>chunkSimple\<close> cuts after the
  space. With a negative \<open>chunkSize\<close> the window of the specification is empty, while
  \<open>substring\<close> swaps its arguments and \<open>-1\<close>, the answer of \<open>lastIndexOf\<close> for a
  paragraph break that is not there, exceeds the negative product.
\<close>

theorem actualEndIndex_threshold_counterexample:
  "actualEndIndex (replicate 63 CHR ''a'' @ '' '' @ replicate 40 CHR ''b'') 90 0 = 64
   \<and> spec_break (replicate 63 CHR ''a'' @ '' '' @ replicate 40 CHR ''b'') 90 0 = 90
   \<and> actualEndIndex (replicate 20 CHR ''a'') (- 5) 10 = 11
   \<and> spec_break (replicate 20 CHR ''a'') (- 5) 10 = 5"
  by code_simp



section \<open>Unsupported file types\<close>

lemma split_on_no_separator: "c \<notin> set ys \<Longrightarrow> split_on c ys = [ys]"
  by (induction ys) auto

lemma split_on_append_separator:
  "\<exists>f. f \<noteq> [] \<and> split_on c (xs @ c # ys) = f @ split_on c ys"
proof (induction xs)
  case Nil
  show ?case by (intro exI[of _ "[[]]"]) simp
next
  case (Cons x xs)
  then obtain f where f: "f \<noteq> []" "split_on c (xs @ c # ys) = f @ split_on c ys" by blast
  show ?case
  proof (cases "x = c")
    case True
    then show ?thesis using f by (intro exI[of _ "[] # f"]) simp
  next
    case False
    obtain l ls where l: "f = l # ls" using f(1) by (cases f) auto
    show ?thesis using False f(2) l by (intro exI[of _ "(x # l) # ls"]) simp
  qed
qed

lemma last_split_on_suffix:
  assumes "c \<notin> set ys"
  shows "last (split_on c (xs @ c # ys)) = ys"
proof -
  obtain f where "split_on c (xs @ c # ys) = f @ split_on c ys"
    using split_on_append_separator by blast
  then show ?thesis using assms by (simp add: split_on_no_separator)
qed

lemma endsWith_pdf_extension:
  assumes "endsWith (toLowerCase filename) ''.pdf''"
  shows "extension filename = ''pdf''"
proof -
  define s where "s = toLowerCase filename"
  define k where "k = length s - length ''.pdf''"
  have "drop k s = CHR ''.'' # ''pdf''"
    using assms unfolding endsWith_def s_def k_def by simp
  then have "s = take k s @ CHR ''.'' # ''pdf''"
    by (metis append_take_drop_id)
  then have "last (split_on (CHR ''.'') s) = last (split_on (CHR ''.'') (take k s @ CHR ''.'' # ''pdf''))"
    by simp
  also have "\<dots> = ''pdf''"
    by (rule last_split_on_suffix) simp
  finally show ?thesis by (simp add: extension_def s_def)
qed

text \<open>
  Claim C1, as amended. For a file name whose extension is none of \<open>pdf\<close>, \<open>docx\<close>,
  \<open>doc\<close>, \<open>csv\<close>, \<open>parseFile\<close> throws \<open>Unsupported file type\<close> without a call to any
  parser, and the parse stage of the route does not pass the error on: it catches it as
  it catches every parse failure, calls no parser again, and returns a placeholder text
  with a page count of 1, and two warnings.
\<close>

theorem unsupported_extension_placeholder:
  assumes "extension filename \<notin> {''pdf'', ''docx'', ''doc'', ''csv''}"
  shows "parseFile e calls buf filename
           = (Inl (Error (''Unsupported file type: '' @ extension filename)), calls)
         \<and> parse_stage e calls buf filename
           = ((\<lparr>parsed_text = ''[File: '' @ filename @ ''] - Parsing failed: ''
                   @ ''Unsupported file type: '' @ extension filename @ ''.'',
                 pageCount = 1\<rparr>,
               [''Initial parse failed: '' @ ''Unsupported file type: '' @ extension filename,
                ''Parsing failed - created placeholder entry.'']),
              calls)"
proof -
  have pf: "parseFile e calls buf filename
              = (Inl (Error (''Unsupported file type: '' @ extension filename)), calls)"
    using assms by (simp add: parseFile_def Let_def)
  have "\<not> endsWith (toLowerCase filename) ''.pdf''"
    using assms endsWith_pdf_extension[of filename] by auto
  then show ?thesis
    unfolding parse_stage_def pf by (simp add: Let_def)
qed

theorem unsupported_extension_placeholder_witness:
  "parseFile degraded_env [] ''file bytes'' ''notes.txt''
     = (Inl (Error ''Unsupported file type: txt''), [])
   \<and> parse_stage degraded_env [] ''file bytes'' ''notes.txt''
     = ((\<lparr>parsed_text = ''[File: notes.txt] - Parsing failed: Unsupported file type: txt.'',
           pageCount = 1\<rparr>,
         [''Initial parse failed: Unsupported file type: txt'',
          ''Parsing failed - created placeholder entry.'']),
        [])"
proof -
  have ext: "extension ''notes.txt'' = ''txt''" by code_simp
  then have "extension ''notes.txt'' \<notin> {''pdf'', ''docx'', ''doc'', ''csv''}" by simp
  from unsupported_extension_placeholder[OF this, of degraded_env "[]" "''file bytes''"]
  show ?thesis by (simp add: ext)
qed

text \<open>
  The whole route on \<open>notes.txt\<close>, with chunks of 2000 characters: the response is a
  success, and the placeholder has been chunked, embedded and upserted.
\<close>

theorem unsupported_extension_ingested_counterexample:
  "POST degraded_env 1 (example_body ''notes.txt'' 4) []
     = (Some (Success 1 1 1
                [''Initial parse failed: Unsupported file type: txt'',
                 ''Parsing failed - created placeholder entry.'',
                 ''Batch 1 failed - using zero vectors'']),
        [FetchBlob ''https://blob.example/f'',
         StoreQueryByHash ''docs'' None ''9f86d081884c7d65'', Uuid, WriteTempFile,
         EmbeddingsCreate [''[File: notes.txt] - Parsing failed: Unsupported file type: txt.''] 4,
         EmbeddingsCreate [''[File: notes.txt] - Parsing failed: Unsupported file type: txt.''] 4,
         EmbeddingsCreate [''[File: notes.txt] - Parsing failed: Unsupported file type: txt.''] 4,
         EmbeddingsCreate [''[File: notes.txt] - Parsing failed: Unsupported file type: txt.''] 4,
         Uuid, StoreUpsert ''docs'' None 1, UnlinkTempFile])"
  by code_simp


section \<open>The embedding stage\<close>

lemma shaped_append: "shaped d (xs @ ys) \<longleftrightarrow> shaped d xs \<and> shaped d ys"
  by (auto simp: shaped_def)

lemma generateEmbeddingsBatch_from_shape:
  assumes "well_shaped e d"
    and "generateEmbeddingsBatch_from e texts d i acc calls = (Inr embs, calls')"
    and "shaped d acc"
  shows "length embs = length acc + (length texts - i) \<and> shaped d embs"
  using assms
proof (induction e texts d i acc calls rule: generateEmbeddingsBatch_from.induct)
  case (1 e texts d i acc calls)
  show ?case
  proof (cases "i < length texts")
    case False
    then show ?thesis using "1.prems"
      by (simp add: generateEmbeddingsBatch_from.simps)
  next
    case True
    define batch where "batch = take 100 (drop i texts)"
    show ?thesis
    proof (cases "embeddings_create e calls batch d")
      case (Inl err)
      then show ?thesis using "1.prems"(2) True
        by (simp add: generateEmbeddingsBatch_from.simps[of e texts d i] Let_def
            batch_def[symmetric])
    next
      case (Inr vs)
      have vs: "length vs = length batch" "shaped d vs"
        using "1.prems"(1) Inr by (auto simp: well_shaped_def shaped_def)
      have run: "generateEmbeddingsBatch_from e texts d (i + 100) (acc @ vs)
                   (calls @ [EmbeddingsCreate batch d]) = (Inr embs, calls')"
        using "1.prems"(2) True Inr
        by (simp add: generateEmbeddingsBatch_from.simps[of e texts d i] Let_def
            batch_def[symmetric])
      have "shaped d (acc @ vs)" using "1.prems"(3) vs(2) by (simp add: shaped_append)
      from "1.IH"[OF True batch_def Inr "1.prems"(1) run this]
      show ?thesis using vs(1) True by (simp add: batch_def)
    qed
  qed
qed

lemma generateEmbeddingsBatch_shape:
  assumes "well_shaped e d" "generateEmbeddingsBatch e calls texts d = (Inr embs, calls')"
  shows "length embs = length texts \<and> shaped d embs"
  using generateEmbeddingsBatch_from_shape[OF assms(1) assms(2)[unfolded generateEmbeddingsBatch_def]]
  by (simp add: shaped_def)

lemma sub_batches_returns:
  assumes "0 \<le> d" "d < 4294967296"
  shows "\<exists>embs ws calls'.
           sub_batches e texts d i acc warnings calls = (Inr (embs, ws), calls')
           \<and> (well_shaped e d \<longrightarrow> shaped d acc \<longrightarrow>
                length embs = length acc + (length texts - i) \<and> shaped d embs)"
  using assms
proof (induction e texts d i acc warnings calls rule: sub_batches.induct)
  case (1 e texts d i acc warnings calls)
  define batchSize where "batchSize = max 1 (length texts div 3)"
  have bs: "1 \<le> batchSize" by (simp add: batchSize_def)
  show ?case
  proof (cases "i < length texts")
    case False
    then show ?thesis by (simp add: sub_batches.simps)
  next
    case True
    define batch where "batch = take batchSize (drop i texts)"
    have lb: "length batch + (length texts - (i + batchSize)) = length texts - i"
      using True by (simp add: batch_def)
    obtain r calls1 where g: "generateEmbeddingsBatch e calls batch d = (r, calls1)"
      by (cases "generateEmbeddingsBatch e calls batch d") auto
    show ?thesis
    proof (cases r)
      case (Inr vs)
      have step: "sub_batches e texts d i acc warnings calls
                    = sub_batches e texts d (i + batchSize) (acc @ vs) warnings calls1"
        apply (subst sub_batches.simps)
        unfolding Let_def batchSize_def[symmetric] batch_def[symmetric]
        using True g Inr by simp
      have sh: "length vs = length batch \<and> shaped d vs" if "well_shaped e d"
        using generateEmbeddingsBatch_shape[OF that] g Inr by simp
      from "1.IH"(2)[OF batchSize_def True batch_def g[symmetric] Inr "1.prems"]
      show ?thesis
        unfolding step using sh lb by (auto simp: shaped_append)
    next
      case (Inl err)
      define z :: vector where "z = replicate (nat d) 0"
      have z: "zeroVector d = Inr z" using "1.prems" by (simp add: zeroVector_def z_def)
      define w where "w = warnings @ [''Batch '' @ decimal (i div batchSize + 1)
                                       @ '' failed - using zero vectors'']"
      have step: "sub_batches e texts d i acc warnings calls
                    = sub_batches e texts d (i + batchSize) (acc @ map (\<lambda>t. z) batch) w calls1"
        apply (subst sub_batches.simps)
        unfolding Let_def batchSize_def[symmetric] batch_def[symmetric] w_def
        using True g Inl z by simp
      have sh: "shaped d (map (\<lambda>t. z) batch)"
        using "1.prems"(1) by (auto simp: shaped_def z_def)
      from "1.IH"(1)[OF batchSize_def True batch_def g[symmetric] Inl z "1.prems"]
      show ?thesis
        unfolding step w_def using sh lb by (auto simp: shaped_append)
    qed
  qed
qed

lemma embedding_attempts_returns:
  assumes "0 \<le> d" "d < 4294967296" "retryCount < 3"
  shows "\<exists>embs ws calls'.
           embedding_attempts e texts d retryCount calls = (Inr (embs, ws), calls')
           \<and> (well_shaped e d \<longrightarrow> length embs = length texts \<and> shaped d embs)"
  using assms
proof (induction e texts d retryCount calls rule: embedding_attempts.induct)
  case (1 e texts d retryCount calls)
  obtain r calls1 where g: "generateEmbeddingsBatch e calls texts d = (r, calls1)"
    by (cases "generateEmbeddingsBatch e calls texts d") auto
  show ?case
  proof (cases r)
    case (Inr embs)
    have "embedding_attempts e texts d retryCount calls = (Inr (embs, []), calls1)"
      using "1.prems"(3) g Inr by (simp add: embedding_attempts.simps[of e texts d retryCount])
    then show ?thesis using generateEmbeddingsBatch_shape[of e d calls texts embs calls1] g Inr
      by auto
  next
    case (Inl err)
    show ?thesis
    proof (cases "3 \<le> retryCount + 1")
      case True
      obtain embs ws calls2 where
        s: "sub_batches e texts d 0 [] [] calls1 = (Inr (embs, ws), calls2)"
        and sh: "well_shaped e d \<longrightarrow> length embs = length texts \<and> shaped d embs"
        using sub_batches_returns[OF "1.prems"(1,2), of e texts 0 "[]" "[]" calls1]
        by (auto simp: shaped_def)
      have "embedding_attempts e texts d retryCount calls = (Inr (embs, ws), calls2)"
        using "1.prems"(3) g Inl True s
        by (simp add: embedding_attempts.simps[of e texts d retryCount])
      then show ?thesis using sh by auto
    next
      case False
      have step: "embedding_attempts e texts d retryCount calls
                    = embedding_attempts e texts d (retryCount + 1) calls1"
        using "1.prems"(3) g Inl False
        by (simp add: embedding_attempts.simps[of e texts d retryCount])
      have "retryCount + 1 < 3" using False by simp
      from "1.IH"[OF "1.prems"(3) g[symmetric] Inl False "1.prems"(1,2) this]
      show ?thesis unfolding step .
    qed
  qed
qed

text \<open>
  Claim C5, as amended. For every list of texts and every \<open>dimensions\<close> that is a valid
  array length (from 0 to \<open>2^32 - 1\<close>), with a provider that returns, when it succeeds,
  one vector of the requested length for each input, the embedding stage returns
  embeddings, as many as there are texts and each of length \<open>dimensions\<close>, whether a
  full-batch attempt succeeds or the stage degrades to sub-batches and zero vectors.
\<close>

theorem embedding_stage_shape:
  assumes "0 \<le> dimensions" and "dimensions < 4294967296" and "well_shaped e dimensions"
  shows "\<exists>embeddings warnings calls'.
           embedding_stage e calls texts dimensions = (Inr (embeddings, warnings), calls')
           \<and> length embeddings = length texts
           \<and> (\<forall>v \<in> set embeddings. int (length v) = dimensions)"
  using embedding_attempts_returns[OF assms(1,2), of 0 e texts calls] assms(3)
  unfolding embedding_stage_def shaped_def by auto

lemma well_shaped_duplicate_env: "0 \<le> d \<Longrightarrow> well_shaped duplicate_env d"
  by (auto simp: well_shaped_def duplicate_env_def degraded_env_def split: if_splits)

theorem embedding_stage_shape_witness:
  "embedding_stage duplicate_env [] [''one'', ''two'', ''three'', ''four''] 2
     = (Inr ([[0, 0], [1, 1], [1, 1], [1, 1]], [''Batch 1 failed - using zero vectors'']),
        [EmbeddingsCreate [''one'', ''two'', ''three'', ''four''] 2,
         EmbeddingsCreate [''one'', ''two'', ''three'', ''four''] 2,
         EmbeddingsCreate [''one'', ''two'', ''three'', ''four''] 2,
         EmbeddingsCreate [''one''] 2, EmbeddingsCreate [''two''] 2,
         EmbeddingsCreate [''three''] 2, EmbeddingsCreate [''four''] 2])
   \<and> length [[0, 0], [1, 1], [1, 1], [1, 1::real]] = length [''one'', ''two'', ''three'', ''four'']
   \<and> map length [[0, 0], [1, 1], [1, 1], [1, 1::real]] = [2, 2, 2, 2]"
proof -
  have run: "embedding_stage duplicate_env [] [''one'', ''two'', ''three'', ''four''] 2
     = (Inr ([[0, 0], [1, 1], [1, 1], [1, 1]], [''Batch 1 failed - using zero vectors'']),
        [EmbeddingsCreate [''one'', ''two'', ''three'', ''four''] 2,
         EmbeddingsCreate [''one'', ''two'', ''three'', ''four''] 2,
         EmbeddingsCreate [''one'', ''two'', ''three'', ''four''] 2,
         EmbeddingsCreate [''one''] 2, EmbeddingsCreate [''two''] 2,
         EmbeddingsCreate [''three''] 2, EmbeddingsCreate [''four''] 2])"
    by code_simp
  have d: "(0::int) \<le> 2" "(2::int) < 4294967296" by simp_all
  from embedding_stage_shape[OF d well_shaped_duplicate_env[OF d(1)], of "[]" "[''one'', ''two'', ''three'', ''four'']"]
  show ?thesis unfolding run by auto
qed

text \<open>
  With \<open>dimensions = -1\<close> no request can succeed, the zero vector cannot be built
  (\<open>new Array(-1)\<close> throws), and the stage ends the route with its failure response in
  place of vectors.
\<close>

theorem invalid_dimensions_counterexample:
  "embedding_stage degraded_env [] [''a text''] (- 1)
     = (Inl (EmbeddingsFailed ''Failed to generate embeddings after 3 attempts: Invalid array length''),
        [EmbeddingsCreate [''a text''] (- 1), EmbeddingsCreate [''a text''] (- 1),
         EmbeddingsCreate [''a text''] (- 1), EmbeddingsCreate [''a text''] (- 1)])"
  by code_simp

lemma slices_Nil: "slices n [] = []"
  by (simp add: slices.simps)

lemma slices_step: "0 < n \<Longrightarrow> xs \<noteq> [] \<Longrightarrow> slices n xs = take n xs # slices n (drop n xs)"
  by (subst slices.simps) simp

lemma sub_batches_ladder:
  assumes "0 \<le> d" "d < 4294967296"
    and "i = j * max 1 (length texts div 3)"
  shows "sub_batches e texts d i acc warnings calls =
           (case degraded_sub_batches e d (Suc j)
                   (slices (max 1 (length texts div 3)) (drop i texts)) calls of
              ((embs, ws), calls') \<Rightarrow> (Inr (acc @ embs, warnings @ ws), calls'))"
  using assms
proof (induction e texts d i acc warnings calls arbitrary: j rule: sub_batches.induct)
  case (1 e texts d i acc warnings calls)
  define batchSize where "batchSize = max 1 (length texts div 3)"
  have bs: "0 < batchSize" by (simp add: batchSize_def)
  have i: "i = j * batchSize" using "1.prems"(3) by (simp add: batchSize_def)
  have nxt: "i + batchSize = Suc j * batchSize" using i by simp
  have num: "i div batchSize + 1 = Suc j" using i bs by simp
  have nxt': "i + batchSize = Suc j * max 1 (length texts div 3)"
    using nxt by (simp add: batchSize_def)
  show ?case
  proof (cases "i < length texts")
    case False
    then show ?thesis by (simp add: sub_batches.simps slices_Nil)
  next
    case True
    define batch where "batch = take batchSize (drop i texts)"
    have ne: "drop i texts \<noteq> []" using True by simp
    have sl: "slices batchSize (drop i texts)
                = batch # slices batchSize (drop (i + batchSize) texts)"
      using slices_step[OF bs ne] by (simp add: batch_def add.commute)
    obtain r calls1 where g: "generateEmbeddingsBatch e calls batch d = (r, calls1)"
      by (cases "generateEmbeddingsBatch e calls batch d") auto
    show ?thesis
    proof (cases r)
      case (Inr vs)
      have step: "sub_batches e texts d i acc warnings calls
                    = sub_batches e texts d (i + batchSize) (acc @ vs) warnings calls1"
        apply (subst sub_batches.simps)
        unfolding Let_def batchSize_def[symmetric] batch_def[symmetric]
        using True g Inr by simp
      from "1.IH"(2)[OF batchSize_def True batch_def g[symmetric] Inr "1.prems"(1,2) nxt']
      show ?thesis
        unfolding step batchSize_def[symmetric] sl
        using g Inr by (simp split: prod.splits)
    next
      case (Inl err)
      define z :: vector where "z = replicate (nat d) 0"
      have z: "zeroVector d = Inr z" using "1.prems" by (simp add: zeroVector_def z_def)
      define w where "w = warnings @ [''Batch '' @ decimal (i div batchSize + 1)
                                       @ '' failed - using zero vectors'']"
      have step: "sub_batches e texts d i acc warnings calls
                    = sub_batches e texts d (i + batchSize) (acc @ map (\<lambda>t. z) batch) w calls1"
        apply (subst sub_batches.simps)
        unfolding Let_def batchSize_def[symmetric] batch_def[symmetric] w_def
        using True g Inl z by simp
      have m: "map (\<lambda>t. z) batch = replicate (length batch) z"
        by (simp add: map_replicate_const)
      from "1.IH"(1)[OF batchSize_def True batch_def g[symmetric] Inl z "1.prems"(1,2) nxt']
      show ?thesis
        unfolding step batchSize_def[symmetric] sl w_def num m
        using g Inl by (simp add: z_def split: prod.splits)
    qed
  qed
qed

lemma embedding_attempts_ladder:
  assumes "0 \<le> d" "d < 4294967296" "retryCount + n = 3" "0 < n"
  shows "embedding_attempts e texts d retryCount calls =
           (case full_batch_attempts e texts d n calls of
              (Some embs, calls') \<Rightarrow> (Inr (embs, []), calls')
            | (None, calls') \<Rightarrow>
                (case degraded_sub_batches e d 1
                        (slices (max 1 (length texts div 3)) texts) calls' of
                   (r, calls'') \<Rightarrow> (Inr r, calls'')))"
  using assms(3,4)
proof (induction n arbitrary: retryCount calls)
  case 0
  then show ?case by simp
next
  case (Suc n)
  have lt: "retryCount < 3" using Suc.prems by simp
  have sb: "sub_batches e texts d 0 [] [] c =
              (case degraded_sub_batches e d 1 (slices (max 1 (length texts div 3)) texts) c of
                 (r, calls') \<Rightarrow> (Inr r, calls'))" for c
    using sub_batches_ladder[OF assms(1,2), of 0 0 texts e "[]" "[]" c]
    by (simp split: prod.splits)
  obtain r calls1 where g: "generateEmbeddingsBatch e calls texts d = (r, calls1)"
    by (cases "generateEmbeddingsBatch e calls texts d") auto
  show ?case
  proof (cases r)
    case (Inr embs)
    then show ?thesis using lt g
      by (simp add: embedding_attempts.simps[of e texts d retryCount])
  next
    case (Inl err)
    show ?thesis
    proof (cases "n = 0")
      case True
      then have "3 \<le> retryCount + 1" using Suc.prems by simp
      then show ?thesis using lt g Inl True
        by (simp add: embedding_attempts.simps[of e texts d retryCount] sb split: prod.splits)
    next
      case False
      then have n: "retryCount + 1 + n = 3" "0 < n" "\<not> 3 \<le> retryCount + 1"
        using Suc.prems by simp_all
      have step: "embedding_attempts e texts d retryCount calls
                    = embedding_attempts e texts d (retryCount + 1) calls1"
        using lt g Inl n(3) by (simp add: embedding_attempts.simps[of e texts d retryCount])
      show ?thesis
        unfolding step Suc.IH[OF n(1,2)] using g Inl by simp
    qed
  qed
qed

text \<open>
  Claim C2, as amended. With \<open>dimensions\<close> a valid array length (from 0 to \<open>2^32 - 1\<close>),
  the embedding stage is the degradation ladder and nothing else: up to three requests
  for the full batch, each made whatever the error of the one before, invalid
  credentials included; after three failures one request for each sub-batch of
  \<open>max 1 (n div 3)\<close> texts, with a zero vector for every text of a sub-batch whose request
  fails and the warning \<open>Batch k failed - using zero vectors\<close>. The stage returns
  embeddings and warnings on every path; it never fails fast and never raises.
\<close>

theorem embedding_stage_no_fail_fast:
  assumes "0 \<le> dimensions" and "dimensions < 4294967296"
  shows "embedding_stage e calls texts dimensions =
           (Inr (fst (degradation_ladder e calls texts dimensions)),
            snd (degradation_ladder e calls texts dimensions))"
  unfolding embedding_stage_def degradation_ladder_def
    embedding_attempts_ladder[OF assms, of 0 3, simplified]
  by (simp split: prod.splits option.splits)

theorem embedding_stage_no_fail_fast_witness:
  "degradation_ladder duplicate_env [] [''one'', ''two'', ''three'', ''four''] 2
     = (([[0, 0], [1, 1], [1, 1], [1, 1]], [''Batch 1 failed - using zero vectors'']),
        [EmbeddingsCreate [''one'', ''two'', ''three'', ''four''] 2,
         EmbeddingsCreate [''one'', ''two'', ''three'', ''four''] 2,
         EmbeddingsCreate [''one'', ''two'', ''three'', ''four''] 2,
         EmbeddingsCreate [''one''] 2, EmbeddingsCreate [''two''] 2,
         EmbeddingsCreate [''three''] 2, EmbeddingsCreate [''four''] 2])"
proof -
  have run: "embedding_stage duplicate_env [] [''one'', ''two'', ''three'', ''four''] 2
     = (Inr ([[0, 0], [1, 1], [1, 1], [1, 1]], [''Batch 1 failed - using zero vectors'']),
        [EmbeddingsCreate [''one'', ''two'', ''three'', ''four''] 2,
         EmbeddingsCreate [''one'', ''two'', ''three'', ''four''] 2,
         EmbeddingsCreate [''one'', ''two'', ''three'', ''four''] 2,
         EmbeddingsCreate [''one''] 2, EmbeddingsCreate [''two''] 2,
         EmbeddingsCreate [''three''] 2, EmbeddingsCreate [''four''] 2])"
    by code_simp
  have d: "(0::int) \<le> 2" "(2::int) < 4294967296" by simp_all
  from embedding_stage_no_fail_fast[OF d, of duplicate_env "[]" "[''one'', ''two'', ''three'', ''four'']"]
  show ?thesis unfolding run by (simp add: prod_eq_iff)
qed

text \<open>
  A provider that rejects the credentials at every request: the first full-batch attempt
  fails with the error 401, and the stage goes through its three attempts and the
  sub-batch, and returns a zero vector and a warning.
\<close>

theorem invalid_credentials_retried_counterexample:
  "generateEmbeddingsBatch degraded_env [] [''a text''] 4
     = (Inl (Error ''401 Incorrect API key provided''), [EmbeddingsCreate [''a text''] 4])
   \<and> embedding_stage degraded_env [] [''a text''] 4
     = (Inr ([[0, 0, 0, 0]], [''Batch 1 failed - using zero vectors'']),
        [EmbeddingsCreate [''a text''] 4, EmbeddingsCreate [''a text''] 4,
         EmbeddingsCreate [''a text''] 4, EmbeddingsCreate [''a text''] 4])"
  by code_simp


section \<open>The duplicate check of the route\<close>

lemma checkDuplicateFile_match:
  assumes "query_by_hash e calls indexName ns fileHash = Inr (Some (match # rest))"
    and "describeIndexStats e (calls @ [StoreQueryByHash indexName ns fileHash]) indexName = Inr u"
  shows "checkDuplicateFile e calls indexName fileHash ns =
           (let fname = (case match of None \<Rightarrow> None | Some md \<Rightarrow> md_filename md);
                calls2 = calls @ [StoreQueryByHash indexName ns fileHash,
                                  DescribeIndexStats indexName];
                calls3 = calls2 @ [StoreQueryByFilename indexName ns fname];
                n = (case query_by_filename e calls2 indexName ns fname of
                       Inl err \<Rightarrow> 0
                     | Inr ms \<Rightarrow> matches_length ms)
            in (Some \<lparr>dup_filename = fname,
                      dup_uploaded_at =
                        (case match of
                           None \<Rightarrow> now_iso e calls3
                         | Some md \<Rightarrow>
                             (case md_uploaded_at md of
                                None \<Rightarrow> now_iso e calls3
                              | Some t \<Rightarrow> if t = [] then now_iso e calls3 else t)),
                      dup_namespace = (case ns of None \<Rightarrow> [] | Some n \<Rightarrow> n),
                      chunks_count = n, vectors_count = n\<rparr>,
                calls3))"
  using assms
  by (auto simp: checkDuplicateFile_def getFileStats_def Let_def
      split: sum.splits option.splits)

text \<open>
  Claim C6, as amended. For a request with \<open>forceUpload\<close> false that reaches the duplicate
  lookup (the required fields are there, the download succeeds, the store key is set),
  when the store's query by content hash returns a match and the read of the index
  statistics that follows it succeeds, the route answers with the duplicate response. The
  record it carries has the file name of the first match, the upload time of that match,
  or the current time when the match has none, and for both counts the number of matches
  of the store's query by that file name, or zero when that query fails. The only calls
  made are the download and the three reads of the store: no parser, no embedding
  request, no upsert.
\<close>

theorem POST_duplicate_short_circuit:
  assumes "req_blobUrl body \<noteq> []" and "req_filename body \<noteq> []" and "req_indexName body \<noteq> []"
    and "req_topic body \<noteq> []" and "req_source body \<noteq> []"
    and "\<not> req_forceUpload body"
    and "fetch e calls (req_blobUrl body) = Inr (True, statusText, Inr buf)"
    and "PINECONE_API_KEY e \<noteq> []"
    and "query_by_hash e (calls @ [FetchBlob (req_blobUrl body)]) (req_indexName body)
           (or_undefined (req_namespace body)) (sha256_hex e buf) = Inr (Some (match # rest))"
    and "describeIndexStats e
           (calls @ [FetchBlob (req_blobUrl body),
                     StoreQueryByHash (req_indexName body) (or_undefined (req_namespace body))
                       (sha256_hex e buf)])
           (req_indexName body) = Inr u"
  shows "POST e fuel body calls =
           (let ns = or_undefined (req_namespace body);
                fname = (case match of None \<Rightarrow> None | Some md \<Rightarrow> md_filename md);
                calls2 = calls @ [FetchBlob (req_blobUrl body),
                                  StoreQueryByHash (req_indexName body) ns (sha256_hex e buf),
                                  DescribeIndexStats (req_indexName body)];
                calls3 = calls2 @ [StoreQueryByFilename (req_indexName body) ns fname];
                n = (case query_by_filename e calls2 (req_indexName body) ns fname of
                       Inl err \<Rightarrow> 0
                     | Inr ms \<Rightarrow> matches_length ms)
            in (Some (DuplicateFile
                        (''This file has already been uploaded as '' @ [CHR 0x27]
                         @ display_name fname @ [CHR 0x27])
                        \<lparr>dup_filename = fname,
                         dup_uploaded_at =
                           (case match of
                              None \<Rightarrow> now_iso e calls3
                            | Some md \<Rightarrow>
                                (case md_uploaded_at md of
                                   None \<Rightarrow> now_iso e calls3
                                 | Some t \<Rightarrow> if t = [] then now_iso e calls3 else t)),
                         dup_namespace = (case ns of None \<Rightarrow> [] | Some n \<Rightarrow> n),
                         chunks_count = n, vectors_count = n\<rparr>),
                calls3))"
proof -
  have s: "describeIndexStats e
             ((calls @ [FetchBlob (req_blobUrl body)])
              @ [StoreQueryByHash (req_indexName body) (or_undefined (req_namespace body))
                   (sha256_hex e buf)])
             (req_indexName body) = Inr u"
    using assms(10) by simp
  show ?thesis
    using assms(1-8) checkDuplicateFile_match[OF assms(9) s]
    by (simp add: POST_def Let_def)
qed

theorem POST_duplicate_short_circuit_witness:
  "POST duplicate_env 1 (example_body ''report.pdf'' 4) []
     = (Some (DuplicateFile (''This file has already been uploaded as '' @ [CHR 0x27]
                             @ ''report.pdf'' @ [CHR 0x27])
                \<lparr>dup_filename = Some ''report.pdf'',
                  dup_uploaded_at = ''2024-04-30T08:00:00.000Z'', dup_namespace = [],
                  chunks_count = 3, vectors_count = 3\<rparr>),
        [FetchBlob ''https://blob.example/f'',
         StoreQueryByHash ''docs'' None ''9f86d081884c7d65'',
         DescribeIndexStats ''docs'',
         StoreQueryByFilename ''docs'' None (Some ''report.pdf'')])"
proof -
  define body where "body = example_body ''report.pdf'' 4"
  have b: "req_blobUrl body \<noteq> []" "req_filename body \<noteq> []" "req_indexName body \<noteq> []"
    "req_topic body \<noteq> []" "req_source body \<noteq> []" "\<not> req_forceUpload body"
    by (simp_all add: body_def example_body_def)
  have f: "fetch duplicate_env [] (req_blobUrl body) = Inr (True, ''OK'', Inr ''file bytes'')"
    by (simp add: duplicate_env_def degraded_env_def)
  have k: "PINECONE_API_KEY duplicate_env \<noteq> []"
    by (simp add: duplicate_env_def degraded_env_def)
  have q: "query_by_hash duplicate_env ([] @ [FetchBlob (req_blobUrl body)]) (req_indexName body)
             (or_undefined (req_namespace body)) (sha256_hex duplicate_env ''file bytes'')
           = Inr (Some (Some \<lparr>md_filename = Some ''report.pdf'',
                               md_uploaded_at = Some ''2024-04-30T08:00:00.000Z''\<rparr> # []))"
    by (simp add: duplicate_env_def degraded_env_def)
  have s: "describeIndexStats duplicate_env
             ([] @ [FetchBlob (req_blobUrl body),
                    StoreQueryByHash (req_indexName body) (or_undefined (req_namespace body))
                      (sha256_hex duplicate_env ''file bytes'')])
             (req_indexName body) = Inr ()"
    by (simp add: duplicate_env_def degraded_env_def)
  have n: "query_by_filename duplicate_env calls2 indexName ns fname = Inr (Some [None, None, None])"
    for calls2 indexName ns fname
    by (simp add: duplicate_env_def degraded_env_def)
  have h: "sha256_hex duplicate_env ''file bytes'' = ''9f86d081884c7d65''"
    by (simp add: duplicate_env_def degraded_env_def)
  from POST_duplicate_short_circuit[OF b f k q s, of 1]
  show ?thesis
    by (simp add: body_def[symmetric] Let_def n h matches_length_def display_name_def)
       (simp add: body_def example_body_def or_undefined_def)
qed

text \<open>
  The store holds a record with the hash of the file, and its index statistics cannot be
  read. The error is caught with those of the query, \<open>checkDuplicateFile\<close> returns
  \<open>null\<close>, and the route parses, embeds and upserts the file once more.
\<close>

theorem duplicate_reingested_counterexample:
  "query_by_hash stats_failing_env [FetchBlob ''https://blob.example/f''] ''docs'' None
     ''9f86d081884c7d65''
     = Inr (Some [Some \<lparr>md_filename = Some ''report.pdf'',
                        md_uploaded_at = Some ''2024-04-30T08:00:00.000Z''\<rparr>])
   \<and> POST stats_failing_env 1 (example_body ''report.pdf'' 4) []
     = (Some (Success 1 1 1 [''Batch 1 failed - using zero vectors'']),
        [FetchBlob ''https://blob.example/f'',
         StoreQueryByHash ''docs'' None ''9f86d081884c7d65'',
         DescribeIndexStats ''docs'', Uuid, WriteTempFile, PdfParse,
         EmbeddingsCreate [''A report of sixty characters or more, so that one chunk comes out of it.''] 4,
         EmbeddingsCreate [''A report of sixty characters or more, so that one chunk comes out of it.''] 4,
         EmbeddingsCreate [''A report of sixty characters or more, so that one chunk comes out of it.''] 4,
         EmbeddingsCreate [''A report of sixty characters or more, so that one chunk comes out of it.''] 4,
         Uuid, StoreUpsert ''docs'' None 1, UnlinkTempFile])"
  by code_simp

text \<open>
  Claim C9. When the query of the duplicate lookup raises an error, \<open>checkDuplicateFile\<close>
  returns \<open>null\<close>, which is also what it returns when the query finds no match, and the
  route goes on with the file as it does with a new one.
\<close>

theorem store_failure_proceeds:
  assumes "req_blobUrl body \<noteq> []" and "req_filename body \<noteq> []" and "req_indexName body \<noteq> []"
    and "req_topic body \<noteq> []" and "req_source body \<noteq> []"
    and "\<not> req_forceUpload body"
    and "fetch e calls (req_blobUrl body) = Inr (True, statusText, Inr buf)"
    and "PINECONE_API_KEY e \<noteq> []"
    and "query_by_hash e (calls @ [FetchBlob (req_blobUrl body)]) (req_indexName body)
           (or_undefined (req_namespace body)) (sha256_hex e buf) = Inl err"
  shows "checkDuplicateFile e (calls @ [FetchBlob (req_blobUrl body)]) (req_indexName body)
           (sha256_hex e buf) (or_undefined (req_namespace body))
           = (None, calls @ [FetchBlob (req_blobUrl body),
                             StoreQueryByHash (req_indexName body)
                               (or_undefined (req_namespace body)) (sha256_hex e buf)])
         \<and> POST e fuel body calls
           = process_file e fuel body buf (sha256_hex e buf)
               (now_iso e (calls @ [FetchBlob (req_blobUrl body)]))
               (calls @ [FetchBlob (req_blobUrl body),
                         StoreQueryByHash (req_indexName body)
                           (or_undefined (req_namespace body)) (sha256_hex e buf)])
         \<and> (\<forall>e2. query_by_hash e2 (calls @ [FetchBlob (req_blobUrl body)]) (req_indexName body)
                    (or_undefined (req_namespace body)) (sha256_hex e buf) = Inr (Some []) \<longrightarrow>
                  checkDuplicateFile e2 (calls @ [FetchBlob (req_blobUrl body)]) (req_indexName body)
                    (sha256_hex e buf) (or_undefined (req_namespace body))
                  = checkDuplicateFile e (calls @ [FetchBlob (req_blobUrl body)]) (req_indexName body)
                      (sha256_hex e buf) (or_undefined (req_namespace body)))"
proof -
  have c: "checkDuplicateFile e (calls @ [FetchBlob (req_blobUrl body)]) (req_indexName body)
             (sha256_hex e buf) (or_undefined (req_namespace body))
           = (None, calls @ [FetchBlob (req_blobUrl body),
                             StoreQueryByHash (req_indexName body)
                               (or_undefined (req_namespace body)) (sha256_hex e buf)])"
    using assms(9) by (simp add: checkDuplicateFile_def Let_def)
  have p: "POST e fuel body calls
           = process_file e fuel body buf (sha256_hex e buf)
               (now_iso e (calls @ [FetchBlob (req_blobUrl body)]))
               (calls @ [FetchBlob (req_blobUrl body),
                         StoreQueryByHash (req_indexName body)
                           (or_undefined (req_namespace body)) (sha256_hex e buf)])"
    using assms(1-8) c by (simp add: POST_def Let_def)
  show ?thesis
    using c p by (simp add: checkDuplicateFile_def Let_def)
qed

theorem store_failure_proceeds_witness:
  "POST degraded_env 1 (example_body ''report.pdf'' 4) []
     = (Some (Success 1 1 1 [''Batch 1 failed - using zero vectors'']),
        [FetchBlob ''https://blob.example/f'',
         StoreQueryByHash ''docs'' None ''9f86d081884c7d65'', Uuid, WriteTempFile, PdfParse,
         EmbeddingsCreate [''A report of sixty characters or more, so that one chunk comes out of it.''] 4,
         EmbeddingsCreate [''A report of sixty characters or more, so that one chunk comes out of it.''] 4,
         EmbeddingsCreate [''A report of sixty characters or more, so that one chunk comes out of it.''] 4,
         EmbeddingsCreate [''A report of sixty characters or more, so that one chunk comes out of it.''] 4,
         Uuid, StoreUpsert ''docs'' None 1, UnlinkTempFile])"
proof -
  define body where "body = example_body ''report.pdf'' 4"
  have b: "req_blobUrl body \<noteq> []" "req_filename body \<noteq> []" "req_indexName body \<noteq> []"
    "req_topic body \<noteq> []" "req_source body \<noteq> []" "\<not> req_forceUpload body"
    by (simp_all add: body_def example_body_def)
  have f: "fetch degraded_env [] (req_blobUrl body) = Inr (True, ''OK'', Inr ''file bytes'')"
    by (simp add: degraded_env_def)
  have k: "PINECONE_API_KEY degraded_env \<noteq> []"
    by (simp add: degraded_env_def)
  have q: "query_by_hash degraded_env ([] @ [FetchBlob (req_blobUrl body)]) (req_indexName body)
             (or_undefined (req_namespace body)) (sha256_hex degraded_env ''file bytes'')
           = Inl (Error ''store unreachable'')"
    by (simp add: degraded_env_def)
  have r: "process_file degraded_env 1 body ''file bytes'' (sha256_hex degraded_env ''file bytes'')
             (now_iso degraded_env ([] @ [FetchBlob (req_blobUrl body)]))
             ([] @ [FetchBlob (req_blobUrl body),
                    StoreQueryByHash (req_indexName body) (or_undefined (req_namespace body))
                      (sha256_hex degraded_env ''file bytes'')])
     = (Some (Success 1 1 1 [''Batch 1 failed - using zero vectors'']),
        [FetchBlob ''https://blob.example/f'',
         StoreQueryByHash ''docs'' None ''9f86d081884c7d65'', Uuid, WriteTempFile, PdfParse,
         EmbeddingsCreate [''A report of sixty characters or more, so that one chunk comes out of it.''] 4,
         EmbeddingsCreate [''A report of sixty characters or more, so that one chunk comes out of it.''] 4,
         EmbeddingsCreate [''A report of sixty characters or more, so that one chunk comes out of it.''] 4,
         EmbeddingsCreate [''A report of sixty characters or more, so that one chunk comes out of it.''] 4,
         Uuid, StoreUpsert ''docs'' None 1, UnlinkTempFile])"
    unfolding body_def by code_simp
  from store_failure_proceeds[OF b f k q, of 1]
  have "POST degraded_env 1 body []
          = process_file degraded_env 1 body ''file bytes'' (sha256_hex degraded_env ''file bytes'')
             (now_iso degraded_env ([] @ [FetchBlob (req_blobUrl body)]))
             ([] @ [FetchBlob (req_blobUrl body),
                    StoreQueryByHash (req_indexName body) (or_undefined (req_namespace body))
                      (sha256_hex degraded_env ''file bytes'')])"
    by blast
  then show ?thesis unfolding r by (simp add: body_def)
qed


section \<open>Table reconstruction\<close>

text \<open>
  With a column count, \<open>formatTable\<close> pads every row to it; without one, the rows keep
  the columns they have.
\<close>

lemma tableData_padded:
  "row \<in> set (tableData rows (Some n)) \<Longrightarrow> n \<le> length row"
  by (auto simp: tableData_def pad_columns_def)

lemma tableData_unpadded:
  "tableData rows None = map (\<lambda>row. map trim (split_on (CHR 0x09) row)) rows"
  by (simp add: tableData_def pad_columns_def)

text \<open>
  Claim C7, at an input where it fails. A table of two rows, of three and of two
  columns, that is ended by an empty line is formatted with the rows alone: the second
  row keeps its two columns. The same table ended by a line of prose is formatted with
  the column count, and the second row is padded to three columns. The separator row
  follows the first row in both.
\<close>

theorem enhanceTableText_blank_line_unpadded:
  "enhanceTableText
     (join [CHR 0x0A] [join [CHR 0x09] [''a'', ''b'', ''c''], join [CHR 0x09] [''d'', ''e''], [], ''end''])
     = ''a | b | c\<newline>--|---|--\<newline>d | e\<newline>\<newline>end''
   \<and> enhanceTableText
     (join [CHR 0x0A] [join [CHR 0x09] [''a'', ''b'', ''c''], join [CHR 0x09] [''d'', ''e''], ''end''])
     = ''a | b | c\<newline>--|---|--\<newline>d | e |  \<newline>end''"
  by code_simp


end
